theory Spec2Isabelle
  imports Main
begin

section \<open>JavaScript containers\<close>

text \<open>
  A JavaScript \<^verbatim>\<open>Map\<close> and \<^verbatim>\<open>Set\<close> iterate in insertion order, and
  \<^verbatim>\<open>Array.from\<close> copies that order. A \<^verbatim>\<open>Set\<close> is modelled as the list of its
  elements, oldest first; a \<^verbatim>\<open>Map\<close> as the list of its entries, oldest first.
  \<^verbatim>\<open>Map.set\<close> on a key that is present replaces the value in place, on a new key it
  appends the entry.
\<close>

definition Set_has :: "'a list \<Rightarrow> 'a \<Rightarrow> bool" where
  "Set_has s x = (x \<in> set s)"

definition Set_add :: "'a \<Rightarrow> 'a list \<Rightarrow> 'a list" where
  "Set_add x s = (if Set_has s x then s else s @ [x])"

definition Set_delete :: "'a \<Rightarrow> 'a list \<Rightarrow> 'a list" where
  "Set_delete x s = filter (\<lambda>y. y \<noteq> x) s"

definition Map_has :: "('k \<times> 'v) list \<Rightarrow> 'k \<Rightarrow> bool" where
  "Map_has m k = (k \<in> set (map fst m))"

definition Map_get :: "('k \<times> 'v) list \<Rightarrow> 'k \<Rightarrow> 'v option" where
  "Map_get m k = map_of m k"

fun Map_set :: "'k \<Rightarrow> 'v \<Rightarrow> ('k \<times> 'v) list \<Rightarrow> ('k \<times> 'v) list" where
  "Map_set k v [] = [(k, v)]"
| "Map_set k v (p # m) = (if fst p = k then (k, v) # m else p # Map_set k v m)"

definition Map_delete :: "'k \<Rightarrow> ('k \<times> 'v) list \<Rightarrow> ('k \<times> 'v) list" where
  "Map_delete k m = filter (\<lambda>p. fst p \<noteq> k) m"

definition Map_keys :: "('k \<times> 'v) list \<Rightarrow> 'k list" where
  "Map_keys m = map fst m"

text \<open>Exceptions are values. \<open>Error msg\<close> is \<^verbatim>\<open>new Error(msg)\<close>.\<close>

datatype error = Error string | SyntaxError | TypeError

section \<open>ChannelManager\<close>

text \<open>
  \<^verbatim>\<open>private channels = new Map<string, Set<string>>()\<close>: channelId to userIds.
  The keys are declared strings, which nothing checks when the code runs: a key is
  whatever value the caller passes, and \<^verbatim>\<open>Map\<close> compares keys by value. The
  functions are written for keys of any type \<open>'k\<close>.
\<close>

type_synonym 'k channels = "('k \<times> string list) list"

text \<open>
  \<^verbatim>\<open>this.channels.get(channelId)!.add(userId)\<close> mutates the set held by the map, so the
  entry keeps its place. The \<^verbatim>\<open>!\<close> is unchecked: were the entry missing the call would
  raise a TypeError, which is the \<open>None\<close> branch.
\<close>

definition addUserToChannel :: "'k channels \<Rightarrow> 'k \<Rightarrow> string \<Rightarrow> error + 'k channels" where
  "addUserToChannel chans channelId userId =
     (let chans1 = (if \<not> Map_has chans channelId then Map_set channelId [] chans else chans)
      in case Map_get chans1 channelId of
           None \<Rightarrow> Inl TypeError
         | Some users \<Rightarrow> Inr (Map_set channelId (Set_add userId users) chans1))"

definition removeUserFromChannel :: "'k channels \<Rightarrow> 'k \<Rightarrow> string \<Rightarrow> error + 'k channels" where
  "removeUserFromChannel chans channelId userId =
     (case Map_get chans channelId of
        None \<Rightarrow> Inr chans
      | Some users \<Rightarrow>
          (let users1 = Set_delete userId users;
               chans1 = Map_set channelId users1 chans
           in if length users1 = 0 then Inr (Map_delete channelId chans1) else Inr chans1))"

definition getUsersInChannel :: "'k channels \<Rightarrow> 'k \<Rightarrow> string list" where
  "getUsersInChannel chans channelId =
     (case Map_get chans channelId of None \<Rightarrow> [] | Some users \<Rightarrow> users)"

definition getChannels :: "'k channels \<Rightarrow> 'k list" where
  "getChannels chans = Map_keys chans"

section \<open>UserConnectionManager\<close>

text \<open>
  \<^verbatim>\<open>private userConnections = new Map<string, Set<WebSocket>>()\<close>. A socket is an
  object compared by identity; \<open>'ws\<close> is the type of socket identities.
\<close>

type_synonym 'ws connections = "(string \<times> 'ws list) list"

definition addUserConnection :: "'ws connections \<Rightarrow> string \<Rightarrow> 'ws \<Rightarrow> error + 'ws connections" where
  "addUserConnection conns userId ws =
     (let conns1 = (if \<not> Map_has conns userId then Map_set userId [] conns else conns)
      in case Map_get conns1 userId of
           None \<Rightarrow> Inl TypeError
         | Some s \<Rightarrow> Inr (Map_set userId (Set_add ws s) conns1))"

definition removeUserConnection :: "'ws connections \<Rightarrow> string \<Rightarrow> 'ws \<Rightarrow> error + 'ws connections" where
  "removeUserConnection conns userId ws =
     (case Map_get conns userId of
        None \<Rightarrow> Inr conns
      | Some connections \<Rightarrow>
          (let connections1 = Set_delete ws connections;
               conns1 = Map_set userId connections1 conns
           in if length connections1 = 0 then Inr (Map_delete userId conns1) else Inr conns1))"

definition getUserConnections :: "'ws connections \<Rightarrow> string \<Rightarrow> 'ws list" where
  "getUserConnections conns userId =
     (case Map_get conns userId of None \<Rightarrow> [] | Some s \<Rightarrow> s)"

definition getAllConnectedUsers :: "'ws connections \<Rightarrow> string list" where
  "getAllConnectedUsers conns = Map_keys conns"

definition isUserConnected :: "'ws connections \<Rightarrow> string \<Rightarrow> bool" where
  "isUserConnected conns userId =
     (Map_has conns userId \<and>
      (case Map_get conns userId of None \<Rightarrow> False | Some s \<Rightarrow> length s > 0))"

text \<open>
  The invariant of both maps: no key is bound to an empty set. It is written as a
  list function so that it evaluates on a concrete state.
\<close>

definition nonempty_sets :: "('k \<times> 'v list) list \<Rightarrow> bool" where
  "nonempty_sets m = list_all (\<lambda>p. snd p \<noteq> []) m"

section \<open>The environment of the server\<close>

text \<open>
  Sockets, registered handlers, the Redis client and the JSON functions are not code of
  the services; their behaviour is a parameter. A call that can throw returns
  \<open>Some e\<close> when it throws \<open>e\<close>. Sockets are taken to be independent: what one
  socket does on \<^verbatim>\<open>send\<close> does not change the \<^verbatim>\<open>readyState\<close> of another during
  the same call. Calls to the logger change neither state nor control flow and are left
  out. A parsed JSON value is a \<open>json\<close>; the services never look into a number, and
  only the integers are represented.
\<close>

datatype json =
    JNull
  | JBool bool
  | JNumber int
  | JString string
  | JArray "json list"
  | JObject "(string \<times> json) list"

text \<open>
  The values that are keys of the maps of the service. The channel ids that
  \<^verbatim>\<open>index.ts\<close> passes to \<open>addUserToChannel\<close> are the elements of the
  \<^verbatim>\<open>channels\<close> array of a connect frame, of which only the array is checked: a
  string, a number, a boolean, \<^verbatim>\<open>null\<close>, or an object or array, which is equal to
  itself only and is named by its reference.
\<close>

datatype key = KString string | KNumber int | KBool bool | KNull | KUndefined | KObject nat

record ('ws, 'h) env =
  readyState :: "'ws \<Rightarrow> nat"
  ws_send :: "'ws \<Rightarrow> string \<Rightarrow> error option"
  handler_call :: "'h \<Rightarrow> json \<Rightarrow> error option"
  JSON_parse :: "string \<Rightarrow> error + json"
  JSON_stringify :: "json \<Rightarrow> string"
  client_subscribe :: "string \<Rightarrow> error option"
  client_unsubscribe :: "string \<Rightarrow> error option"

text \<open>\<^verbatim>\<open>WebSocket.OPEN\<close> of the ws library.\<close>

definition WebSocket_OPEN :: nat where
  "WebSocket_OPEN = 1"

text \<open>
  What the services do to the outside, in the order they do it: a call of a registered
  handler, a call of \<^verbatim>\<open>UserConnectionManager.sendToUser\<close>, a call of
  \<^verbatim>\<open>ws.send\<close>, and the two calls on the Redis client.
\<close>

datatype ('ws, 'h) event =
    HandlerCall 'h json
  | SendToUser string string
  | SocketSend 'ws string
  | RedisSubscribe string
  | RedisUnsubscribe string

subsection \<open>UserConnectionManager.sendToUser\<close>

text \<open>
  The body of \<^verbatim>\<open>connections.forEach\<close>, with \<open>sentCount\<close> as accumulator. A socket
  that is not OPEN is passed over; a \<^verbatim>\<open>send\<close> that throws is caught and the loop
  goes on.
\<close>

fun forEach_send ::
  "('ws, 'h) env \<Rightarrow> 'ws list \<Rightarrow> string \<Rightarrow> nat \<Rightarrow> nat \<times> ('ws, 'h) event list" where
  "forEach_send E [] message sentCount = (sentCount, [])"
| "forEach_send E (ws # rest) message sentCount =
     (if readyState E ws = WebSocket_OPEN then
        (case ws_send E ws message of
           None \<Rightarrow>
             (case forEach_send E rest message (sentCount + 1) of
                (n, evs) \<Rightarrow> (n, SocketSend ws message # evs))
         | Some e \<Rightarrow>
             (case forEach_send E rest message sentCount of
                (n, evs) \<Rightarrow> (n, SocketSend ws message # evs)))
      else forEach_send E rest message sentCount)"

definition UserConnectionManager_sendToUser ::
  "('ws, 'h) env \<Rightarrow> 'ws connections \<Rightarrow> string \<Rightarrow> string
     \<Rightarrow> (error + bool) \<times> ('ws, 'h) event list" where
  "UserConnectionManager_sendToUser E conns userId message =
     (case Map_get conns userId of
        None \<Rightarrow> (Inr False, [SendToUser userId message])
      | Some connections \<Rightarrow>
          if length connections = 0 then (Inr False, [SendToUser userId message])
          else (case forEach_send E connections message 0 of
                  (sentCount, evs) \<Rightarrow> (Inr (sentCount > 0), SendToUser userId message # evs)))"

section \<open>MessageSubscriberService\<close>

text \<open>
  The private fields of the service. \<open>channelManager\<close> and \<open>userConnectionManager\<close>
  are the objects handed to the constructor; handlers are named by a value of \<open>'h\<close>
  and run by the environment.
\<close>

record ('ws, 'h) service =
  channelManager :: "key channels"
  userConnectionManager :: "'ws connections"
  messageHandlers :: "(key \<times> 'h) list"
  subscribedChannels :: "string list"
  isConnected :: bool

definition not_connected :: error where
  "not_connected = Error ''MessageSubscriberService not connected. Call connect() first.''"

definition sendToUser ::
  "('ws, 'h) env \<Rightarrow> ('ws, 'h) service \<Rightarrow> string \<Rightarrow> json
     \<Rightarrow> (error + bool) \<times> ('ws, 'h) event list" where
  "sendToUser E this userId message =
     (let wrappedMessage = JObject [(''type'', JString ''message''), (''message'', message)];
          messageString = JSON_stringify E wrappedMessage
      in UserConnectionManager_sendToUser E (userConnectionManager this) userId messageString)"

text \<open>
  Reading a property of a parsed JSON value: \<open>None\<close> is \<^verbatim>\<open>undefined\<close>, and reading
  from \<^verbatim>\<open>null\<close> raises a TypeError. Only \<open>channelId\<close> and \<open>messageId\<close> are read,
  which no prototype defines. The entries of a \<open>JObject\<close> are those \<^verbatim>\<open>JSON.parse\<close>
  leaves, one per key.
\<close>

fun get_property :: "json \<Rightarrow> string \<Rightarrow> error + json option" where
  "get_property JNull name = Inl TypeError"
| "get_property (JObject props) name = Inr (Map_get props name)"
| "get_property _ name = Inr None"

text \<open>
  \<^verbatim>\<open>Map.get\<close> with the value of \<^verbatim>\<open>message.channelId\<close>, whatever it is. A
  string, a number, a boolean, \<^verbatim>\<open>null\<close> and \<^verbatim>\<open>undefined\<close> find the entry
  of the equal key. An object or an array of the payload was made by this
  \<^verbatim>\<open>JSON.parse\<close> and is no key of any map.
\<close>

fun to_key :: "json option \<Rightarrow> key option" where
  "to_key None = Some KUndefined"
| "to_key (Some JNull) = Some KNull"
| "to_key (Some (JBool b)) = Some (KBool b)"
| "to_key (Some (JNumber n)) = Some (KNumber n)"
| "to_key (Some (JString s)) = Some (KString s)"
| "to_key (Some (JArray xs)) = None"
| "to_key (Some (JObject props)) = None"

definition Map_get_value :: "(key \<times> 'v) list \<Rightarrow> json option \<Rightarrow> 'v option" where
  "Map_get_value m v = (case to_key v of None \<Rightarrow> None | Some k \<Rightarrow> Map_get m k)"

text \<open>
  \<open>getUsersInChannel\<close> as \<open>broadcastToChannel\<close> calls it, with the value of
  \<^verbatim>\<open>message.channelId\<close> whatever it is.
\<close>

definition getUsersInChannel_value :: "key channels \<Rightarrow> json option \<Rightarrow> string list" where
  "getUsersInChannel_value chans channelId =
     (case Map_get_value chans channelId of None \<Rightarrow> [] | Some users \<Rightarrow> users)"

definition broadcastToChannel ::
  "('ws, 'h) env \<Rightarrow> ('ws, 'h) service \<Rightarrow> json \<Rightarrow> (error + unit) \<times> ('ws, 'h) event list" where
  "broadcastToChannel E this message =
     (case get_property message ''channelId'' of
        Inl e \<Rightarrow> (Inl e, [])
      | Inr channelId \<Rightarrow>
          (let users = getUsersInChannel_value (channelManager this) channelId
           in (Inr (), concat (map (\<lambda>userId. snd (sendToUser E this userId message)) users))))"

definition handleMessage ::
  "('ws, 'h) env \<Rightarrow> ('ws, 'h) service \<Rightarrow> json \<Rightarrow> (error + unit) \<times> ('ws, 'h) event list" where
  "handleMessage E this message =
     (case get_property message ''channelId'' of
        Inl e \<Rightarrow> (Inl e, [])
      | Inr channelId \<Rightarrow>
          (case Map_get_value (messageHandlers this) channelId of
             Some handler \<Rightarrow>
               (case handler_call E handler message of
                  None \<Rightarrow> (Inr (), [HandlerCall handler message])
                | Some e \<Rightarrow> (Inr (), [HandlerCall handler message]))
           | None \<Rightarrow> broadcastToChannel E this message))"

text \<open>
  The callback \<^verbatim>\<open>(data, channel) => { try { ... } catch { ... } }\<close> that \<open>subscribeTo\<close>
  gives to the Redis client. \<open>channel\<close>, the topic, only goes to the logger.
\<close>

definition onRedisMessage ::
  "('ws, 'h) env \<Rightarrow> ('ws, 'h) service \<Rightarrow> string \<Rightarrow> string
     \<Rightarrow> (error + unit) \<times> ('ws, 'h) event list" where
  "onRedisMessage E this data channel =
     (case JSON_parse E data of
        Inl e \<Rightarrow> (Inr (), [])
      | Inr message \<Rightarrow>
          (case get_property message ''messageId'' of
             Inl e \<Rightarrow> (Inr (), [])
           | Inr messageId \<Rightarrow>
               (case handleMessage E this message of
                  (Inl e, evs) \<Rightarrow> (Inr (), evs)
                | (Inr u, evs) \<Rightarrow> (Inr (), evs))))"

definition subscribeTo ::
  "('ws, 'h) env \<Rightarrow> ('ws, 'h) service \<Rightarrow> string
     \<Rightarrow> (error + unit) \<times> ('ws, 'h) service \<times> ('ws, 'h) event list" where
  "subscribeTo E this channelId =
     (if \<not> isConnected this then (Inl not_connected, this, [])
      else if Set_has (subscribedChannels this) channelId then (Inr (), this, [])
      else (case client_subscribe E channelId of
              Some e \<Rightarrow> (Inl e, this, [RedisSubscribe channelId])
            | None \<Rightarrow>
                (Inr (),
                 this\<lparr>subscribedChannels := Set_add channelId (subscribedChannels this)\<rparr>,
                 [RedisSubscribe channelId])))"

definition unsubscribeFrom ::
  "('ws, 'h) env \<Rightarrow> ('ws, 'h) service \<Rightarrow> string
     \<Rightarrow> (error + unit) \<times> ('ws, 'h) service \<times> ('ws, 'h) event list" where
  "unsubscribeFrom E this channelId =
     (if \<not> isConnected this then (Inl not_connected, this, [])
      else if \<not> Set_has (subscribedChannels this) channelId then (Inr (), this, [])
      else (case client_unsubscribe E channelId of
              Some e \<Rightarrow> (Inl e, this, [RedisUnsubscribe channelId])
            | None \<Rightarrow>
                (Inr (),
                 this\<lparr>subscribedChannels := Set_delete channelId (subscribedChannels this)\<rparr>,
                 [RedisUnsubscribe channelId])))"

definition onChannelMessage ::
  "('ws, 'h) service \<Rightarrow> key \<Rightarrow> 'h \<Rightarrow> ('ws, 'h) service" where
  "onChannelMessage this channelId handler =
     this\<lparr>messageHandlers := Map_set channelId handler (messageHandlers this)\<rparr>"

definition removeChannelMessageHandler ::
  "('ws, 'h) service \<Rightarrow> key \<Rightarrow> ('ws, 'h) service" where
  "removeChannelMessageHandler this channelId =
     this\<lparr>messageHandlers := Map_delete channelId (messageHandlers this)\<rparr>"

text \<open>
  \<open>isValidChimeMessage\<close> of \<^verbatim>\<open>types/message\<close>, the schema of a Message: an object
  whose \<open>channelId\<close>, \<open>messageId\<close>, \<open>userId\<close>, \<open>content\<close> and \<open>createdAt\<close> are
  truthy.
\<close>

fun truthy :: "json option \<Rightarrow> bool" where
  "truthy None = False"
| "truthy (Some JNull) = False"
| "truthy (Some (JBool b)) = b"
| "truthy (Some (JNumber n)) = (n \<noteq> 0)"
| "truthy (Some (JString s)) = (s \<noteq> [])"
| "truthy (Some (JArray xs)) = True"
| "truthy (Some (JObject props)) = True"

fun isValidChimeMessage :: "json \<Rightarrow> bool" where
  "isValidChimeMessage (JObject msg) =
     (truthy (Map_get msg ''channelId'') \<and> truthy (Map_get msg ''messageId'') \<and>
      truthy (Map_get msg ''userId'') \<and> truthy (Map_get msg ''content'') \<and>
      truthy (Map_get msg ''createdAt''))"
| "isValidChimeMessage (JArray xs) = False"
| "isValidChimeMessage _ = False"

section \<open>JavaScript numbers\<close>

text \<open>
  A JavaScript \<^verbatim>\<open>number\<close> is a double. The numbers met here are whole, and such a
  number is written as the integer it is equal to. Below \<open>2 ^ 53\<close> every integer is a
  number; from there on the numbers are \<open>spacing m\<close> apart, and an integer reply of
  Redis reaches the code as the nearest number, the one with the even mantissa when
  two are as near (\<open>to_number\<close>).
\<close>

type_synonym number = int

function spacing :: "int \<Rightarrow> int" where
  "spacing m = (if m < 2 ^ 53 then 1 else 2 * spacing (m div 2))"
  by pat_completeness auto
termination
  by (relation "measure nat") auto

declare spacing.simps [simp del]

definition nearest_double :: "int \<Rightarrow> number" where
  "nearest_double m =
     (let s = spacing m; q = m div s; r = m mod s
      in if 2 * r < s then q * s
         else if s < 2 * r then (q + 1) * s
         else if even q then q * s else (q + 1) * s)"

definition to_number :: "int \<Rightarrow> number" where
  "to_number n = (if n < 0 then - nearest_double (- n) else nearest_double n)"

text \<open>
  \<^verbatim>\<open>Number.prototype.toString\<close> on a whole number of magnitude below \<open>10 ^ 21\<close>,
  which a 64-bit counter never reaches: the digits of the decimal with the fewest
  significant digits that reads back as the same number, the nearest to it when there
  are several, followed by zeros. \<open>round_trip x p\<close> is that decimal among the
  multiples of \<open>10 ^ p\<close>, if there is one.
\<close>

definition digit_char :: "int \<Rightarrow> char" where
  "digit_char d = char_of (48 + d)"

function digits_of :: "int \<Rightarrow> string" where
  "digits_of n = (if n < 10 then [digit_char n] else digits_of (n div 10) @ [digit_char (n mod 10)])"
  by pat_completeness auto
termination
  by (relation "measure nat") auto

declare digits_of.simps [simp del]

definition round_trip :: "number \<Rightarrow> nat \<Rightarrow> int option" where
  "round_trip x p =
     (let u = 10 ^ p; lo = (x div u) * u; hi = lo + u;
          ok_lo = (nearest_double lo = x);
          ok_hi = (nearest_double hi = x \<and> hi < 10 ^ length (digits_of x))
      in if ok_lo \<and> ok_hi then
           (if x - lo < hi - x then Some lo
            else if hi - x < x - lo then Some hi
            else if even (x div u) then Some lo else Some hi)
         else if ok_lo then Some lo
         else if ok_hi then Some hi
         else None)"

fun shortest_from :: "number \<Rightarrow> nat \<Rightarrow> int" where
  "shortest_from x 0 = x"
| "shortest_from x (Suc p) =
     (case round_trip x (Suc p) of Some y \<Rightarrow> y | None \<Rightarrow> shortest_from x p)"

definition shortest :: "number \<Rightarrow> int" where
  "shortest x = shortest_from x (length (digits_of x) - 1)"

definition Number_toString :: "number \<Rightarrow> string" where
  "Number_toString n =
     (if n < 0 then CHR ''-'' # digits_of (shortest (- n)) else digits_of (shortest n))"

text \<open>Reading a messageId back as an integer; \<open>None\<close> when it is not a decimal numeral.\<close>

definition is_digit :: "char \<Rightarrow> bool" where
  "is_digit c = (48 \<le> (of_char c :: int) \<and> (of_char c :: int) \<le> 57)"

definition parse_digits :: "string \<Rightarrow> int option" where
  "parse_digits s =
     (if s \<noteq> [] \<and> list_all is_digit s
      then Some (foldl (\<lambda>acc c. 10 * acc + (of_char c - 48)) 0 s) else None)"

definition parse_integer :: "string \<Rightarrow> int option" where
  "parse_integer s =
     (case s of
        [] \<Rightarrow> None
      | c # ds \<Rightarrow>
          if c = CHR ''-'' then map_option (\<lambda>n. - n) (parse_digits ds)
          else parse_digits s)"

section \<open>MessageIDService and MessageService\<close>

text \<open>
  Redis and Cassandra are outside the repository: \<open>client_incr\<close> and
  \<open>dbClient_execute\<close> take the state of their server and return the reply, or the
  error the promise is rejected with, and the state after the call. \<open>client_incr\<close>
  replies with the \<^verbatim>\<open>number\<close> its promise resolves with.
\<close>

type_synonym timestamp = nat

datatype cql_value = CqlText string | CqlTimestamp timestamp | CqlNull | CqlEmptyMap

record ('r, 'd) backend =
  client_incr :: "string \<Rightarrow> 'r \<Rightarrow> (error + number) \<times> 'r"
  dbClient_execute :: "string \<Rightarrow> cql_value list \<Rightarrow> 'd \<Rightarrow> (error + unit) \<times> 'd"
  toISOString :: "timestamp \<Rightarrow> string"

record ('r, 'd) stores =
  redis :: 'r
  cassandra :: 'd

definition counter_key :: "string \<Rightarrow> string" where
  "counter_key channelId = ''channel:'' @ channelId @ '':message_counter''"

definition insert_query :: string where
  "insert_query = ''INSERT INTO messages (channel_id, message_id, user_id, content, created_at, edited_at, metadata) VALUES (?, ?, ?, ?, ?, ?, ?)''"

definition getNextMessageId ::
  "('r, 'd) backend \<Rightarrow> string \<Rightarrow> 'r \<Rightarrow> (error + number) \<times> 'r" where
  "getNextMessageId B channelId r =
     (let key = counter_key channelId
      in case client_incr B key r of
           (Inr messageId, r') \<Rightarrow> (Inr messageId, r')
         | (Inl e, r') \<Rightarrow> (Inl e, r'))"

text \<open>
  \<open>saveMessage\<close> from the reply of the allocator on: the insert, and the Message built
  from the same values. The Message is the object literal of the source.
\<close>

definition saveMessage_insert ::
  "('r, 'd) backend \<Rightarrow> string \<Rightarrow> string \<Rightarrow> string \<Rightarrow> number \<Rightarrow> timestamp \<Rightarrow> 'd
     \<Rightarrow> (error + json) \<times> 'd" where
  "saveMessage_insert B channelId userId content messageId createdAt d =
     (case dbClient_execute B insert_query
             [CqlText channelId, CqlText (Number_toString messageId), CqlText userId,
              CqlText content, CqlTimestamp createdAt, CqlNull, CqlEmptyMap] d of
        (Inl e, d') \<Rightarrow> (Inl e, d')
      | (Inr u, d') \<Rightarrow>
          (Inr (JObject
                 [(''channelId'', JString channelId),
                  (''messageId'', JString (Number_toString messageId)),
                  (''userId'', JString userId),
                  (''content'', JString content),
                  (''createdAt'', JString (toISOString B createdAt)),
                  (''editedAt'', JNull),
                  (''metadata'', JObject [])]), d'))"

text \<open>\<open>now\<close> is what \<^verbatim>\<open>new Date()\<close> reads when the allocator has replied.\<close>

definition saveMessage ::
  "('r, 'd) backend \<Rightarrow> timestamp \<Rightarrow> string \<Rightarrow> string \<Rightarrow> string \<Rightarrow> ('r, 'd) stores
     \<Rightarrow> (error + json) \<times> ('r, 'd) stores" where
  "saveMessage B now channelId userId content w =
     (case getNextMessageId B channelId (redis w) of
        (Inl e, r') \<Rightarrow> (Inl e, w\<lparr>redis := r'\<rparr>)
      | (Inr messageId, r') \<Rightarrow>
          (let createdAt = now
           in case saveMessage_insert B channelId userId content messageId createdAt (cassandra w) of
                (res, d') \<Rightarrow> (res, w\<lparr>redis := r', cassandra := d'\<rparr>)))"

subsection \<open>Concurrent callers\<close>

text \<open>
  \<open>saveMessage\<close> suspends twice, at each \<^verbatim>\<open>await\<close>. Between the two, other calls
  run. A call is \<open>Pending\<close> until the allocator has answered it, \<open>Allocated\<close> until
  the store has, and then \<open>Resolved\<close> with its Message or \<open>Rejected\<close>.
\<close>

datatype save_call =
    Pending string string string
  | Allocated string string string number timestamp
  | Resolved json
  | Rejected error

text \<open>
  Redis \<^verbatim>\<open>INCR\<close> as a counter for each key, one atomic step. Redis holds a
  counter as a signed 64-bit integer and refuses to step past it; the reply reaches
  the caller as a \<^verbatim>\<open>number\<close>. The call can also fail: refused before the counter
  moved, or applied, where Redis allows, with the reply lost.
\<close>

datatype incr_outcome = Reply | Refused error | ReplyLost error

definition incr_allowed :: "int \<Rightarrow> bool" where
  "incr_allowed v = (- (2 ^ 63) \<le> v \<and> v < 2 ^ 63 - 1)"

definition redis_incr ::
  "incr_outcome \<Rightarrow> string \<Rightarrow> (string \<Rightarrow> int) \<Rightarrow> (error + number) \<times> (string \<Rightarrow> int)" where
  "redis_incr outcome key counters =
     (case outcome of
        Reply \<Rightarrow>
          if incr_allowed (counters key)
          then (Inr (to_number (counters key + 1)), counters(key := counters key + 1))
          else (Inl (Error ''ERR increment or decrement would overflow''), counters)
      | Refused e \<Rightarrow> (Inl e, counters)
      | ReplyLost e \<Rightarrow>
          if incr_allowed (counters key)
          then (Inl e, counters(key := counters key + 1))
          else (Inl e, counters))"

text \<open>
  The state of the system: the two stores, the calls in flight, and \<open>allocations\<close>, the
  record of which call was given which id on which channel, in the order the
  allocator answered.
\<close>

record 'd system =
  counters :: "string \<Rightarrow> int"
  rows :: 'd
  calls :: "save_call list"
  allocations :: "(nat \<times> string \<times> number) list"

text \<open>
  One step of the schedule \<open>(i, outcome, now)\<close>: call \<open>i\<close> runs up to its next
  \<^verbatim>\<open>await\<close>; \<open>outcome\<close> is what the allocator does if it is asked, \<open>now\<close> the
  clock.
\<close>

definition advance ::
  "(string \<Rightarrow> int, 'd) backend \<Rightarrow> nat \<times> incr_outcome \<times> timestamp \<Rightarrow> 'd system \<Rightarrow> 'd system" where
  "advance B step st =
     (case step of (i, outcome, now) \<Rightarrow>
        if i < length (calls st) then
          (case calls st ! i of
             Pending channelId userId content \<Rightarrow>
               (case getNextMessageId (B\<lparr>client_incr := redis_incr outcome\<rparr>) channelId (counters st) of
                  (Inl e, r') \<Rightarrow> st\<lparr>counters := r', calls := (calls st)[i := Rejected e]\<rparr>
                | (Inr messageId, r') \<Rightarrow>
                    st\<lparr>counters := r',
                       calls := (calls st)[i := Allocated channelId userId content messageId now],
                       allocations := allocations st @ [(i, channelId, messageId)]\<rparr>)
           | Allocated channelId userId content messageId createdAt \<Rightarrow>
               (case saveMessage_insert B channelId userId content messageId createdAt (rows st) of
                  (Inl e, d') \<Rightarrow> st\<lparr>rows := d', calls := (calls st)[i := Rejected e]\<rparr>
                | (Inr message, d') \<Rightarrow> st\<lparr>rows := d', calls := (calls st)[i := Resolved message]\<rparr>)
           | Resolved message \<Rightarrow> st
           | Rejected e \<Rightarrow> st)
        else st)"

definition run ::
  "(string \<Rightarrow> int, 'd) backend \<Rightarrow> (nat \<times> incr_outcome \<times> timestamp) list \<Rightarrow> 'd system \<Rightarrow> 'd system" where
  "run B schedule st = foldl (\<lambda>s step. advance B step s) st schedule"

definition start ::
  "(string \<Rightarrow> int) \<Rightarrow> 'd \<Rightarrow> (string \<times> string \<times> string) list \<Rightarrow> 'd system" where
  "start counters0 rows0 requests =
     \<lparr>counters = counters0, rows = rows0,
      calls = map (\<lambda>(channelId, userId, content). Pending channelId userId content) requests,
      allocations = []\<rparr>"

text \<open>
  The messageId of what call \<open>i\<close> returned, read as an integer: nothing if the call
  did not return a Message.
\<close>

definition returned_id :: "save_call list \<Rightarrow> nat \<Rightarrow> int option list" where
  "returned_id cs i =
     (if i < length cs then
        (case cs ! i of
           Resolved message \<Rightarrow>
             (case get_property message ''messageId'' of
                Inr (Some (JString s)) \<Rightarrow> [parse_integer s]
              | _ \<Rightarrow> [None])
         | _ \<Rightarrow> [])
      else [])"

text \<open>
  The ids returned on a channel, in the order the allocator answered the calls that
  returned them.
\<close>

definition returned_ids :: "'d system \<Rightarrow> string \<Rightarrow> int option list" where
  "returned_ids st channelId =
     concat (map (\<lambda>(i, c, n). if c = channelId then returned_id (calls st) i else [])
                 (allocations st))"

section \<open>A concrete environment\<close>

text \<open>
  An environment to run the definitions in, after the mocks of the unit tests: socket
  \<open>1\<close> is CLOSED, socket \<open>2\<close> throws on \<^verbatim>\<open>send\<close>, every other socket is OPEN
  and sends; handler \<open>1\<close> throws. \<open>write_json\<close> prints a value the way
  \<^verbatim>\<open>JSON.stringify\<close> does when no string needs an escape, and \<open>read_json\<close> reads
  the four payloads of the examples.
\<close>

fun join :: "string \<Rightarrow> string list \<Rightarrow> string" where
  "join sep [] = []"
| "join sep [x] = x"
| "join sep (x # y # ys) = x @ sep @ join sep (y # ys)"

fun write_json :: "json \<Rightarrow> string" where
  "write_json JNull = ''null''"
| "write_json (JBool b) = (if b then ''true'' else ''false'')"
| "write_json (JNumber n) = Number_toString n"
| "write_json (JString s) = [CHR 0x22] @ s @ [CHR 0x22]"
| "write_json (JArray xs) = ''['' @ join '','' (map write_json xs) @ '']''"
| "write_json (JObject props) =
     ''{'' @ join '',''
              (map (\<lambda>p. [CHR 0x22] @ fst p @ [CHR 0x22] @ '':'' @ write_json (snd p)) props)
          @ ''}''"

definition hello_message :: json where
  "hello_message =
     JObject [(''channelId'', JString ''general''), (''messageId'', JString ''1''),
              (''userId'', JString ''u1''), (''content'', JString ''hi''),
              (''createdAt'', JString ''2023-01-01T00:00:00Z''), (''editedAt'', JNull),
              (''metadata'', JObject [])]"

definition partial_message :: json where
  "partial_message = JObject [(''channelId'', JString ''general'')]"

definition numeric_message :: json where
  "numeric_message = JObject [(''channelId'', JNumber 5)]"

definition read_json :: "string \<Rightarrow> error + json" where
  "read_json data =
     (if data = write_json hello_message then Inr hello_message
      else if data = write_json partial_message then Inr partial_message
      else if data = write_json numeric_message then Inr numeric_message
      else if data = ''null'' then Inr JNull
      else Inl SyntaxError)"

definition test_env :: "(nat, nat) env" where
  "test_env =
     \<lparr>readyState = (\<lambda>ws. if ws = 1 then 3 else WebSocket_OPEN),
      ws_send = (\<lambda>ws message. if ws = 2 then Some (Error ''Send failed'') else None),
      handler_call = (\<lambda>h message. if h = 1 then Some (Error ''Handler error'') else None),
      JSON_parse = read_json,
      JSON_stringify = write_json,
      client_subscribe = (\<lambda>channelId. None),
      client_unsubscribe = (\<lambda>channelId. None)\<rparr>"

text \<open>
  A service that is not connected to Redis: \<open>u1\<close> and \<open>u2\<close> are members of
  \<open>general\<close>, \<open>u1\<close> holds socket \<open>3\<close> and \<open>u2\<close> sockets \<open>1\<close>, \<open>2\<close> and \<open>4\<close>, and
  handler \<open>1\<close> is registered for \<open>random\<close>. A connect frame with
  \<^verbatim>\<open>"channels":[5]\<close> has made \<open>u1\<close> a member of the channel with the number
  \<open>5\<close> as key.
\<close>

definition test_service :: "(nat, nat) service" where
  "test_service =
     \<lparr>channelManager = [(KString ''general'', [''u1'', ''u2'']), (KString ''random'', [''u3'']),
                        (KNumber 5, [''u1''])],
      userConnectionManager = [(''u1'', [3]), (''u2'', [1, 2, 4])],
      messageHandlers = [(KString ''random'', 1)],
      subscribedChannels = [],
      isConnected = False\<rparr>"

text \<open>Member and connection sets hold each element once.\<close>

definition distinct_sets :: "('k \<times> 'v list) list \<Rightarrow> bool" where
  "distinct_sets m = list_all (\<lambda>p. distinct (snd p)) m"

fun is_SendToUser :: "('ws, 'h) event \<Rightarrow> bool" where
  "is_SendToUser (SendToUser userId message) = True"
| "is_SendToUser _ = False"

text \<open>
  The Redis client calling the callback of a subscription once for each payload that
  arrives on the topic, in order.
\<close>

definition deliver ::
  "('ws, 'h) env \<Rightarrow> ('ws, 'h) service \<Rightarrow> string \<Rightarrow> string list
     \<Rightarrow> (error + unit) list \<times> ('ws, 'h) event list" where
  "deliver E this channel payloads =
     (map (\<lambda>data. fst (onRedisMessage E this data channel)) payloads,
      concat (map (\<lambda>data. snd (onRedisMessage E this data channel)) payloads))"

text \<open>
  Backends to run \<open>saveMessage\<close> on: the allocator is \<open>redis_incr\<close>, the store is
  the list of the rows inserted, and refuses every insert when \<open>db_up\<close> is false. The
  clock reading printed as a number stands for the ISO date.
\<close>

definition test_backend :: "incr_outcome \<Rightarrow> bool \<Rightarrow> (string \<Rightarrow> int, cql_value list list) backend" where
  "test_backend outcome db_up =
     \<lparr>client_incr = redis_incr outcome,
      dbClient_execute = (\<lambda>query params table.
         if db_up then (Inr (), table @ [params])
         else (Inl (Error ''Database connection failed''), table)),
      toISOString = (\<lambda>t. Number_toString (int t))\<rparr>"

definition fresh_counters :: "string \<Rightarrow> int" where
  "fresh_counters key = 0"

definition fresh_stores :: "(string \<Rightarrow> int, cql_value list list) stores" where
  "fresh_stores = \<lparr>redis = fresh_counters, cassandra = []\<rparr>"

definition edge_counters :: "string \<Rightarrow> int" where
  "edge_counters key = 2 ^ 53 - 1"

text \<open>
  What holds of the record of allocations in every state the schedule reaches: the
  call an id was given to is waiting for the store with that id, has returned a
  Message with that id, or was rejected.
\<close>

definition ids_on :: "string \<Rightarrow> (nat \<times> string \<times> number) list \<Rightarrow> number list" where
  "ids_on channelId log = map (\<lambda>a. snd (snd a)) (filter (\<lambda>a. fst (snd a) = channelId) log)"

fun holds_id :: "save_call \<Rightarrow> string \<Rightarrow> number \<Rightarrow> bool" where
  "holds_id (Pending c u ct) channelId n = False"
| "holds_id (Allocated c u ct messageId createdAt) channelId n = (c = channelId \<and> messageId = n)"
| "holds_id (Resolved message) channelId n =
     (get_property message ''messageId'' = Inr (Some (JString (Number_toString n))) \<and>
      get_property message ''channelId'' = Inr (Some (JString channelId)))"
| "holds_id (Rejected e) channelId n = True"

definition allocations_ok :: "'d system \<Rightarrow> bool" where
  "allocations_ok st =
     (\<forall>a \<in> set (allocations st).
         fst a < length (calls st) \<and>
         holds_id (calls st ! fst a) (fst (snd a)) (snd (snd a)))"

text \<open>
  What holds of a channel whose counter has stayed between \<open>- (2 ^ 53)\<close> and
  \<open>2 ^ 53\<close>, where every reply is a number as it is: the ids recorded for the
  channel are at most its counter and strictly increasing.
\<close>

definition ids_ok :: "string \<Rightarrow> 'd system \<Rightarrow> bool" where
  "ids_ok channelId st =
     (- (2 ^ 53) \<le> counters st (counter_key channelId)
      \<and> (\<forall>a \<in> set (allocations st). fst (snd a) = channelId \<longrightarrow>
            - (2 ^ 53) < snd (snd a) \<and> snd (snd a) \<le> counters st (counter_key channelId))
      \<and> sorted_wrt (<) (ids_on channelId (allocations st)))"

text \<open>
  The record is complete: a call that the allocator has answered with an id, whether
  it waits for the store or has returned, is recorded, and no call is recorded twice.
\<close>

fun was_allocated :: "save_call \<Rightarrow> bool" where
  "was_allocated (Allocated c u ct messageId createdAt) = True"
| "was_allocated (Resolved message) = True"
| "was_allocated _ = False"

definition allocations_complete :: "'d system \<Rightarrow> bool" where
  "allocations_complete st =
     (distinct (map fst (allocations st)) \<and>
      (\<forall>i < length (calls st). was_allocated (calls st ! i) \<longrightarrow> i \<in> fst ` set (allocations st)))"

section \<open>Lemmas on the containers\<close>

lemma Map_get_Nil [simp]: "Map_get [] k = None"
  by (simp add: Map_get_def)

lemma Map_get_Cons [simp]:
  "Map_get (p # m) k = (if fst p = k then Some (snd p) else Map_get m k)"
  by (cases p) (auto simp: Map_get_def)

lemma Map_has_Nil [simp]: "Map_has [] k = False"
  by (simp add: Map_has_def)

lemma Map_has_Cons [simp]: "Map_has (p # m) k = (fst p = k \<or> Map_has m k)"
  by (auto simp: Map_has_def)

lemma Map_has_get: "Map_has m k = (Map_get m k \<noteq> None)"
  by (induction m) auto

lemma Map_get_set_same [simp]: "Map_get (Map_set k v m) k = Some v"
  by (induction m) auto

lemma Map_get_set_other [simp]: "k' \<noteq> k \<Longrightarrow> Map_get (Map_set k v m) k' = Map_get m k'"
  by (induction m) auto

lemma Map_set_set [simp]: "Map_set k v (Map_set k w m) = Map_set k v m"
  by (induction m) auto

lemma Map_set_same_value: "Map_get m k = Some v \<Longrightarrow> Map_set k v m = m"
  by (induction m) (auto split: if_splits)

lemma Map_get_delete_same [simp]: "Map_get (Map_delete k m) k = None"
  by (induction m) (auto simp: Map_delete_def)

lemma Map_get_delete_other [simp]:
  "k' \<noteq> k \<Longrightarrow> Map_get (Map_delete k m) k' = Map_get m k'"
  by (induction m) (auto simp: Map_delete_def)

lemma Map_keys_delete: "k \<notin> set (Map_keys (Map_delete k m))"
  by (auto simp: Map_keys_def Map_delete_def)

lemma Map_keys_get: "(k \<in> set (Map_keys m)) = (Map_get m k \<noteq> None)"
  by (induction m) (auto simp: Map_keys_def)

lemma Set_add_idem [simp]: "Set_add x (Set_add x s) = Set_add x s"
  by (simp add: Set_add_def Set_has_def)

lemma Set_add_nonempty [simp]: "Set_add x s \<noteq> []"
  by (auto simp: Set_add_def Set_has_def)

lemma Set_delete_absent: "x \<notin> set s \<Longrightarrow> Set_delete x s = s"
  by (induction s) (auto simp: Set_delete_def)

lemma Set_delete_only: "set s \<subseteq> {x} \<Longrightarrow> Set_delete x s = []"
  by (induction s) (auto simp: Set_delete_def)

lemma nonempty_sets_Nil [simp]: "nonempty_sets []"
  by (simp add: nonempty_sets_def)

lemma nonempty_sets_Cons [simp]:
  "nonempty_sets (p # m) = (snd p \<noteq> [] \<and> nonempty_sets m)"
  by (simp add: nonempty_sets_def)

lemma nonempty_sets_get: "nonempty_sets m \<Longrightarrow> Map_get m k = Some s \<Longrightarrow> s \<noteq> []"
  by (induction m) (auto split: if_splits)

lemma nonempty_sets_set: "nonempty_sets m \<Longrightarrow> s \<noteq> [] \<Longrightarrow> nonempty_sets (Map_set k s m)"
  by (induction m) auto

lemma nonempty_sets_delete_set:
  "nonempty_sets m \<Longrightarrow> nonempty_sets (Map_delete k (Map_set k s m))"
  by (induction m) (auto simp: Map_delete_def nonempty_sets_def list_all_iff)

section \<open>ChannelManager and UserConnectionManager: membership and the invariant\<close>

lemma addUserToChannel_Inr:
  "addUserToChannel chans c u =
     Inr (Map_set c (Set_add u (getUsersInChannel chans c))
            (if Map_has chans c then chans else Map_set c [] chans))"
  by (auto simp: addUserToChannel_def getUsersInChannel_def Let_def Map_has_get split: option.splits)

lemma addUserToChannel_twice:
  "\<exists>chans1. addUserToChannel chans c u = Inr chans1 \<and> addUserToChannel chans1 c u = Inr chans1"
  by (simp add: addUserToChannel_Inr getUsersInChannel_def Map_has_get)

lemma removeUserFromChannel_absent:
  "nonempty_sets chans \<Longrightarrow> u \<notin> set (getUsersInChannel chans c) \<Longrightarrow>
   removeUserFromChannel chans c u = Inr chans"
  by (auto simp: removeUserFromChannel_def getUsersInChannel_def Let_def Set_delete_absent
      Map_set_same_value dest: nonempty_sets_get split: option.splits)

lemma removeUserFromChannel_last:
  "set (getUsersInChannel chans c) \<subseteq> {u} \<Longrightarrow>
   \<exists>chans1. removeUserFromChannel chans c u = Inr chans1 \<and> c \<notin> set (getChannels chans1)"
  by (auto simp: removeUserFromChannel_def getUsersInChannel_def getChannels_def Let_def
      Set_delete_only Map_keys_delete Map_keys_get split: option.splits)

lemma getUsersInChannel_unknown:
  "c \<notin> set (getChannels chans) \<Longrightarrow> getUsersInChannel chans c = []"
  by (auto simp: getUsersInChannel_def getChannels_def Map_keys_get split: option.splits)

lemma removeUserFromChannel_Inr:
  "\<exists>chans1. removeUserFromChannel chans c u = Inr chans1"
  by (simp add: removeUserFromChannel_def Let_def split: option.splits)

lemma addUserConnection_Inr:
  "addUserConnection conns u ws =
     Inr (Map_set u (Set_add ws (getUserConnections conns u))
            (if Map_has conns u then conns else Map_set u [] conns))"
  by (auto simp: addUserConnection_def getUserConnections_def Let_def Map_has_get split: option.splits)

lemma nonempty_sets_addUserToChannel:
  "nonempty_sets chans \<Longrightarrow> addUserToChannel chans c u = Inr chans1 \<Longrightarrow> nonempty_sets chans1"
  by (auto simp: addUserToChannel_Inr nonempty_sets_set split: if_splits)

lemma nonempty_sets_removeUserFromChannel:
  "nonempty_sets chans \<Longrightarrow> removeUserFromChannel chans c u = Inr chans1 \<Longrightarrow> nonempty_sets chans1"
  by (auto simp: removeUserFromChannel_def Let_def nonempty_sets_set nonempty_sets_delete_set
      split: option.splits if_splits)

lemma nonempty_sets_addUserConnection:
  "nonempty_sets conns \<Longrightarrow> addUserConnection conns u ws = Inr conns1 \<Longrightarrow> nonempty_sets conns1"
  by (auto simp: addUserConnection_Inr nonempty_sets_set split: if_splits)

lemma nonempty_sets_removeUserConnection:
  "nonempty_sets conns \<Longrightarrow> removeUserConnection conns u ws = Inr conns1 \<Longrightarrow> nonempty_sets conns1"
  by (auto simp: removeUserConnection_def Let_def nonempty_sets_set nonempty_sets_delete_set
      split: option.splits if_splits)

lemma nonempty_sets_keys:
  "nonempty_sets m \<Longrightarrow> k \<in> set (Map_keys m) \<Longrightarrow> \<exists>s. Map_get m k = Some s \<and> s \<noteq> []"
  by (induction m) (auto simp: Map_keys_def)

text \<open>
  Claim C8. For a channel \<open>c\<close> and a user \<open>u\<close>: adding \<open>u\<close> to \<open>c\<close> a second time
  leaves the map as the first call left it, so \<open>getUsersInChannel\<close> and
  \<open>getChannels\<close> answer the same; removing a user who is not a member of \<open>c\<close>
  (also when \<open>c\<close> is unknown) returns without error and leaves the map as it was, in
  every state the manager can be in (no channel bound to an empty set); removing the
  only member deletes the entry of \<open>c\<close>; and \<open>getUsersInChannel\<close> of an unknown
  channel is the empty list.
\<close>

theorem ChannelManager_membership:
  "(\<exists>chans1. addUserToChannel chans c u = Inr chans1 \<and> addUserToChannel chans1 c u = Inr chans1)
   \<and> (nonempty_sets chans \<and> u \<notin> set (getUsersInChannel chans c)
        \<longrightarrow> removeUserFromChannel chans c u = Inr chans)
   \<and> (set (getUsersInChannel chans c) \<subseteq> {u}
        \<longrightarrow> (\<exists>chans1. removeUserFromChannel chans c u = Inr chans1 \<and> c \<notin> set (getChannels chans1)))
   \<and> (c \<notin> set (getChannels chans) \<longrightarrow> getUsersInChannel chans c = [])"
  using addUserToChannel_twice [of chans c u] removeUserFromChannel_absent [of chans u c]
    removeUserFromChannel_last [of chans c u] getUsersInChannel_unknown [of c chans]
  by blast

theorem ChannelManager_membership_witness:
  "addUserToChannel [(''general'', [''u1''])] ''general'' ''u2'' = Inr [(''general'', [''u1'', ''u2''])]
   \<and> addUserToChannel [(''general'', [''u1'', ''u2''])] ''general'' ''u2'' = Inr [(''general'', [''u1'', ''u2''])]
   \<and> nonempty_sets [(''general'', [''u1''])]
   \<and> ''u2'' \<notin> set (getUsersInChannel [(''general'', [''u1''])] ''general'')
   \<and> removeUserFromChannel [(''general'', [''u1''])] ''general'' ''u2'' = Inr [(''general'', [''u1''])]
   \<and> set (getUsersInChannel [(''general'', [''u1''])] ''general'') \<subseteq> {''u1''}
   \<and> removeUserFromChannel [(''general'', [''u1''])] ''general'' ''u1'' = Inr []
   \<and> ''x'' \<notin> set (getChannels [(''general'', [''u1''])])
   \<and> getUsersInChannel [(''general'', [''u1''])] ''x'' = []"
  using ChannelManager_membership [of "[(''general'', [''u1''])]" "''general''" "''u2''"]
    ChannelManager_membership [of "[(''general'', [''u1''])]" "''general''" "''u1''"]
    ChannelManager_membership [of "[(''general'', [''u1''])]" "''x''" "''u1''"]
  by (simp add: addUserToChannel_Inr removeUserFromChannel_def getChannels_def Map_keys_def
      getUsersInChannel_def Set_add_def Set_has_def Set_delete_def Map_delete_def)

text \<open>
  Claim C9. Both maps start empty, where the invariant holds. From a state where no
  key is bound to an empty set, adding and removing a user of a channel, and adding
  and removing a connection of a user, return without error a state where none is;
  the queries return no state. So every channel that \<open>getChannels\<close> lists has a
  member and every user that \<open>getAllConnectedUsers\<close> lists has a connection.
\<close>

theorem nonempty_sets_preserved:
  "nonempty_sets ([] :: 'k channels) \<and> nonempty_sets ([] :: 'ws connections)
   \<and> (nonempty_sets chans \<longrightarrow>
        (\<exists>chans1. addUserToChannel chans c u = Inr chans1 \<and> nonempty_sets chans1)
      \<and> (\<exists>chans1. removeUserFromChannel chans c u = Inr chans1 \<and> nonempty_sets chans1)
      \<and> (\<forall>c' \<in> set (getChannels chans). getUsersInChannel chans c' \<noteq> []))
   \<and> (nonempty_sets conns \<longrightarrow>
        (\<exists>conns1. addUserConnection conns u ws = Inr conns1 \<and> nonempty_sets conns1)
      \<and> (\<exists>conns1. removeUserConnection conns u ws = Inr conns1 \<and> nonempty_sets conns1)
      \<and> (\<forall>u' \<in> set (getAllConnectedUsers conns). getUserConnections conns u' \<noteq> []))"
proof -
  have chan_add: "\<exists>chans1. addUserToChannel chans c u = Inr chans1 \<and> nonempty_sets chans1"
    if "nonempty_sets chans"
    using that nonempty_sets_addUserToChannel [of chans c u] by (simp add: addUserToChannel_Inr)
  have chan_rm: "\<exists>chans1. removeUserFromChannel chans c u = Inr chans1 \<and> nonempty_sets chans1"
    if "nonempty_sets chans"
    using that nonempty_sets_removeUserFromChannel [of chans c u] removeUserFromChannel_Inr [of chans c u]
    by blast
  have chan_keys: "\<forall>c' \<in> set (getChannels chans). getUsersInChannel chans c' \<noteq> []"
    if "nonempty_sets chans"
    using that nonempty_sets_keys [of chans] by (fastforce simp: getChannels_def getUsersInChannel_def)
  have conn_add: "\<exists>conns1. addUserConnection conns u ws = Inr conns1 \<and> nonempty_sets conns1"
    if "nonempty_sets conns"
    using that nonempty_sets_addUserConnection [of conns u ws] by (simp add: addUserConnection_Inr)
  have conn_rm: "\<exists>conns1. removeUserConnection conns u ws = Inr conns1 \<and> nonempty_sets conns1"
    if "nonempty_sets conns"
    using that nonempty_sets_removeUserConnection [of conns u ws]
    by (auto simp: removeUserConnection_def Let_def split: option.splits)
  have conn_keys: "\<forall>u' \<in> set (getAllConnectedUsers conns). getUserConnections conns u' \<noteq> []"
    if "nonempty_sets conns"
    using that nonempty_sets_keys [of conns]
    by (fastforce simp: getAllConnectedUsers_def getUserConnections_def)
  show ?thesis
    using chan_add chan_rm chan_keys conn_add conn_rm conn_keys by simp
qed

theorem nonempty_sets_preserved_witness:
  "nonempty_sets [(''general'', [''u1''])]
   \<and> addUserToChannel [(''general'', [''u1''])] ''random'' ''u1''
       = Inr [(''general'', [''u1'']), (''random'', [''u1''])]
   \<and> nonempty_sets [(''general'', [''u1'']), (''random'', [''u1''])]
   \<and> removeUserFromChannel [(''general'', [''u1''])] ''general'' ''u1'' = Inr []
   \<and> getChannels [(''general'', [''u1''])] = [''general'']
   \<and> getUsersInChannel [(''general'', [''u1''])] ''general'' = [''u1'']
   \<and> nonempty_sets [(''u1'', [1::nat, 2])]
   \<and> addUserConnection [(''u1'', [1::nat, 2])] ''u1'' 3 = Inr [(''u1'', [1, 2, 3])]
   \<and> removeUserConnection [(''u1'', [1::nat, 2])] ''u1'' 2 = Inr [(''u1'', [1])]
   \<and> getAllConnectedUsers [(''u1'', [1::nat, 2])] = [''u1'']
   \<and> getUserConnections [(''u1'', [1::nat, 2])] ''u1'' = [1, 2]"
  using nonempty_sets_preserved [of "[(''general'', [''u1''])]" "''random''" "''u1''"
      "[(''u1'', [1::nat, 2])]" 3]
    nonempty_sets_preserved [of "[(''general'', [''u1''])]" "''general''" "''u1''"
      "[(''u1'', [1::nat, 2])]" 2]
  by (simp add: addUserToChannel_Inr removeUserFromChannel_def getChannels_def Map_keys_def
      getUsersInChannel_def Set_add_def Set_has_def Set_delete_def Map_delete_def
      addUserConnection_Inr removeUserConnection_def getAllConnectedUsers_def
      getUserConnections_def)

section \<open>Delivery to the connections of a user\<close>

lemma forEach_send_eq:
  "forEach_send E conns message n =
     (n + length (filter (\<lambda>ws. readyState E ws = WebSocket_OPEN \<and> ws_send E ws message = None) conns),
      map (\<lambda>ws. SocketSend ws message) (filter (\<lambda>ws. readyState E ws = WebSocket_OPEN) conns))"
  by (induction conns arbitrary: n) (auto split: option.splits)

lemma UserConnectionManager_sendToUser_eq:
  "UserConnectionManager_sendToUser E conns u message =
     (Inr (\<exists>ws \<in> set (getUserConnections conns u).
             readyState E ws = WebSocket_OPEN \<and> ws_send E ws message = None),
      SendToUser u message #
        map (\<lambda>ws. SocketSend ws message)
          (filter (\<lambda>ws. readyState E ws = WebSocket_OPEN) (getUserConnections conns u)))"
  by (auto simp: UserConnectionManager_sendToUser_def getUserConnections_def forEach_send_eq
      filter_empty_conv split: option.splits)

text \<open>
  Claim C5, as amended. \<open>UserConnectionManager.sendToUser\<close> never raises. It calls
  \<^verbatim>\<open>send\<close> once on each connection of the user that is OPEN, in the order of the
  set, and on no other: a connection that is not OPEN is passed over without a send.
  A send that throws is caught, and the connections after it are still sent to. The
  result is true exactly when the send on some OPEN connection returned, and false
  otherwise: the user has no connection, none is OPEN, or every send threw.
\<close>

theorem UserConnectionManager_sendToUser_open:
  "UserConnectionManager_sendToUser E conns u message =
     (Inr (\<exists>ws \<in> set (getUserConnections conns u).
             readyState E ws = WebSocket_OPEN \<and> ws_send E ws message = None),
      SendToUser u message #
        map (\<lambda>ws. SocketSend ws message)
          (filter (\<lambda>ws. readyState E ws = WebSocket_OPEN) (getUserConnections conns u)))
   \<and> (getUserConnections conns u = [] \<longrightarrow>
        UserConnectionManager_sendToUser E conns u message = (Inr False, [SendToUser u message]))"
  by (simp add: UserConnectionManager_sendToUser_eq)

theorem UserConnectionManager_sendToUser_open_witness:
  "getUserConnections (userConnectionManager test_service) ''u2'' = [1, 2, 4]
   \<and> readyState test_env 1 \<noteq> WebSocket_OPEN
   \<and> ws_send test_env 2 ''x'' = Some (Error ''Send failed'')
   \<and> UserConnectionManager_sendToUser test_env (userConnectionManager test_service) ''u2'' ''x''
       = (Inr True, [SendToUser ''u2'' ''x'', SocketSend 2 ''x'', SocketSend 4 ''x''])
   \<and> UserConnectionManager_sendToUser test_env (userConnectionManager test_service) ''ghost'' ''x''
       = (Inr False, [SendToUser ''ghost'' ''x''])"
  using UserConnectionManager_sendToUser_open [of test_env "userConnectionManager test_service" "''u2''" "''x''"]
    UserConnectionManager_sendToUser_open [of test_env "userConnectionManager test_service" "''ghost''" "''x''"]
  by (simp add: test_env_def test_service_def getUserConnections_def WebSocket_OPEN_def)

text \<open>
  The claim as first stated has every connection of the user attempted. Socket \<open>1\<close>
  is CLOSED and is the only connection of \<open>u1\<close>: no send is made on it.
\<close>

theorem sendToUser_closed_socket_counterexample:
  "1 \<in> set (getUserConnections [(''u1'', [1::nat])] ''u1'')
   \<and> SocketSend 1 ''x'' \<notin> set (snd (UserConnectionManager_sendToUser test_env [(''u1'', [1::nat])] ''u1'' ''x''))
   \<and> fst (UserConnectionManager_sendToUser test_env [(''u1'', [1::nat])] ''u1'' ''x'') = Inr False"
  by (simp add: UserConnectionManager_sendToUser_def getUserConnections_def test_env_def WebSocket_OPEN_def)

section \<open>Dispatch of a Message\<close>

lemma Map_get_value_string [simp]:
  "Map_get_value m (Some (JString c)) = Map_get m (KString c)"
  by (simp add: Map_get_value_def)

lemma getUsersInChannel_value_string [simp]:
  "getUsersInChannel_value chans (Some (JString c)) = getUsersInChannel chans (KString c)"
  by (simp add: getUsersInChannel_value_def getUsersInChannel_def)

lemma sendToUser_eq:
  "sendToUser E this u message =
     UserConnectionManager_sendToUser E (userConnectionManager this) u
       (JSON_stringify E (JObject [(''type'', JString ''message''), (''message'', message)]))"
  by (simp add: sendToUser_def Let_def)

lemma filter_SendToUser_sendToUser:
  "filter is_SendToUser (snd (sendToUser E this u message)) =
     [SendToUser u (JSON_stringify E (JObject [(''type'', JString ''message''), (''message'', message)]))]"
  by (simp add: sendToUser_eq UserConnectionManager_sendToUser_eq filter_map o_def)

lemma filter_SendToUser_concat:
  "filter is_SendToUser (concat (map (\<lambda>u. snd (sendToUser E this u message)) users)) =
     map (\<lambda>u. SendToUser u (JSON_stringify E (JObject [(''type'', JString ''message''), (''message'', message)]))) users"
  by (induction users) (simp_all add: filter_SendToUser_sendToUser)

lemma broadcastToChannel_eq:
  "get_property message ''channelId'' = Inr (Some (JString c)) \<Longrightarrow>
   broadcastToChannel E this message =
     (Inr (), concat (map (\<lambda>u. snd (sendToUser E this u message)) (getUsersInChannel (channelManager this) (KString c))))"
  by (simp add: broadcastToChannel_def Let_def)

lemma handleMessage_handler:
  "get_property message ''channelId'' = Inr (Some (JString c)) \<Longrightarrow>
   Map_get (messageHandlers this) (KString c) = Some h \<Longrightarrow>
   handleMessage E this message = (Inr (), [HandlerCall h message])"
  by (simp add: handleMessage_def split: option.splits)

lemma handleMessage_no_handler:
  "get_property message ''channelId'' = Inr (Some (JString c)) \<Longrightarrow>
   Map_get (messageHandlers this) (KString c) = None \<Longrightarrow>
   handleMessage E this message = broadcastToChannel E this message"
  by (simp add: handleMessage_def)

lemma distinct_sets_get: "distinct_sets m \<Longrightarrow> Map_get m k = Some s \<Longrightarrow> distinct s"
  by (induction m) (auto simp: distinct_sets_def split: if_splits)

lemma distinct_getUsersInChannel:
  "distinct_sets chans \<Longrightarrow> distinct (getUsersInChannel chans c)"
  by (auto simp: getUsersInChannel_def dest: distinct_sets_get split: option.splits)

lemma distinct_sets_set: "distinct_sets m \<Longrightarrow> distinct s \<Longrightarrow> distinct_sets (Map_set k s m)"
  by (induction m) (auto simp: distinct_sets_def)

lemma distinct_sets_delete: "distinct_sets m \<Longrightarrow> distinct_sets (Map_delete k m)"
  by (induction m) (auto simp: distinct_sets_def Map_delete_def)

lemma distinct_Set_add: "distinct s \<Longrightarrow> distinct (Set_add x s)"
  by (simp add: Set_add_def Set_has_def)

lemma distinct_Set_delete: "distinct s \<Longrightarrow> distinct (Set_delete x s)"
  by (simp add: Set_delete_def)

lemma distinct_sets_addUserToChannel:
  "distinct_sets chans \<Longrightarrow> addUserToChannel chans c u = Inr chans1 \<Longrightarrow> distinct_sets chans1"
  by (auto simp: addUserToChannel_Inr distinct_sets_set distinct_Set_add distinct_getUsersInChannel
      split: if_splits)

lemma distinct_sets_removeUserFromChannel:
  assumes "distinct_sets chans" and "removeUserFromChannel chans c u = Inr chans1"
  shows "distinct_sets chans1"
proof (cases "Map_get chans c")
  case None
  with assms show ?thesis by (simp add: removeUserFromChannel_def)
next
  case (Some us)
  have d: "distinct (Set_delete u us)"
    using distinct_sets_get [OF assms(1) Some] by (rule distinct_Set_delete)
  have m: "distinct_sets (Map_set c (Set_delete u us) chans)"
    using assms(1) d by (rule distinct_sets_set)
  have "chans1 = Map_delete c (Map_set c (Set_delete u us) chans)
        \<or> chans1 = Map_set c (Set_delete u us) chans"
    using assms(2) Some by (simp add: removeUserFromChannel_def Let_def split: if_splits)
  then show ?thesis
    using m distinct_sets_delete [OF m, of c] by blast
qed

lemma distinct_getUserConnections:
  "distinct_sets conns \<Longrightarrow> distinct (getUserConnections conns u)"
  by (auto simp: getUserConnections_def dest: distinct_sets_get split: option.splits)

lemma distinct_sets_addUserConnection:
  "distinct_sets conns \<Longrightarrow> addUserConnection conns u ws = Inr conns1 \<Longrightarrow> distinct_sets conns1"
  by (auto simp: addUserConnection_Inr distinct_sets_set distinct_Set_add distinct_getUserConnections
      split: if_splits)

lemma distinct_sets_removeUserConnection:
  assumes "distinct_sets conns" and "removeUserConnection conns u ws = Inr conns1"
  shows "distinct_sets conns1"
proof (cases "Map_get conns u")
  case None
  with assms show ?thesis by (simp add: removeUserConnection_def)
next
  case (Some s)
  have d: "distinct (Set_delete ws s)"
    using distinct_sets_get [OF assms(1) Some] by (rule distinct_Set_delete)
  have m: "distinct_sets (Map_set u (Set_delete ws s) conns)"
    using assms(1) d by (rule distinct_sets_set)
  have "conns1 = Map_delete u (Map_set u (Set_delete ws s) conns)
        \<or> conns1 = Map_set u (Set_delete ws s) conns"
    using assms(2) Some by (simp add: removeUserConnection_def Let_def split: if_splits)
  then show ?thesis
    using m distinct_sets_delete [OF m, of u] by blast
qed

lemma removeChannelMessageHandler_get:
  "Map_get (messageHandlers (removeChannelMessageHandler this k)) k = None"
  by (simp add: removeChannelMessageHandler_def)

lemma removeChannelMessageHandler_broadcast:
  "broadcastToChannel E (removeChannelMessageHandler this k) message = broadcastToChannel E this message"
  by (simp add: broadcastToChannel_def removeChannelMessageHandler_def sendToUser_def Let_def
      cong: sum.case_cong)

text \<open>
  Claim C3. Let the \<open>channelId\<close> of a Message be the string \<open>c\<close>. If a handler
  is registered under \<open>c\<close>, \<open>handleMessage\<close> calls it with the Message and does
  nothing else, whether the handler returns or throws, and returns normally. If none is
  registered, and likewise once \<open>removeChannelMessageHandler\<close> has removed it, the
  service calls \<open>sendToUser\<close> for the members of \<open>c\<close> in turn; the calls
  that reach the connection manager are one for each entry of the member list, all
  with the same serialized envelope of the Message, and the member list holds each
  user once when the sets of the channel manager do.
\<close>

theorem handleMessage_dispatch:
  assumes "get_property message ''channelId'' = Inr (Some (JString c))"
  shows "(\<forall>h. Map_get (messageHandlers this) (KString c) = Some h \<longrightarrow>
            handleMessage E this message = (Inr (), [HandlerCall h message]))
    \<and> (Map_get (messageHandlers this) (KString c) = None \<longrightarrow>
            handleMessage E this message =
              (Inr (), concat (map (\<lambda>u. snd (sendToUser E this u message))
                                (getUsersInChannel (channelManager this) (KString c)))))
    \<and> handleMessage E (removeChannelMessageHandler this (KString c)) message =
              (Inr (), concat (map (\<lambda>u. snd (sendToUser E this u message))
                                (getUsersInChannel (channelManager this) (KString c))))
    \<and> filter is_SendToUser
          (concat (map (\<lambda>u. snd (sendToUser E this u message))
                     (getUsersInChannel (channelManager this) (KString c)))) =
        map (\<lambda>u. SendToUser u
                   (JSON_stringify E (JObject [(''type'', JString ''message''), (''message'', message)])))
          (getUsersInChannel (channelManager this) (KString c))
    \<and> (distinct_sets (channelManager this) \<longrightarrow> distinct (getUsersInChannel (channelManager this) (KString c)))"
proof -
  have rm: "get_property message ''channelId'' = Inr (Some (JString c)) \<Longrightarrow>
      handleMessage E (removeChannelMessageHandler this (KString c)) message = broadcastToChannel E this message"
    using handleMessage_no_handler [of message c "removeChannelMessageHandler this (KString c)" E]
    by (simp add: removeChannelMessageHandler_get removeChannelMessageHandler_broadcast)
  show ?thesis
    using assms rm
    by (simp add: handleMessage_handler handleMessage_no_handler broadcastToChannel_eq
        filter_SendToUser_concat distinct_getUsersInChannel)
qed


theorem handleMessage_dispatch_witness:
  "get_property hello_message ''channelId'' = Inr (Some (JString ''general''))
   \<and> Map_get (messageHandlers test_service) (KString ''general'') = None
   \<and> handleMessage test_env test_service hello_message =
       (Inr (),
        [SendToUser ''u1'' (write_json (JObject [(''type'', JString ''message''), (''message'', hello_message)])),
         SocketSend 3 (write_json (JObject [(''type'', JString ''message''), (''message'', hello_message)])),
         SendToUser ''u2'' (write_json (JObject [(''type'', JString ''message''), (''message'', hello_message)])),
         SocketSend 2 (write_json (JObject [(''type'', JString ''message''), (''message'', hello_message)])),
         SocketSend 4 (write_json (JObject [(''type'', JString ''message''), (''message'', hello_message)]))])
   \<and> Map_get (messageHandlers (onChannelMessage test_service (KString ''general'') 1)) (KString ''general'') = Some 1
   \<and> handler_call test_env 1 hello_message = Some (Error ''Handler error'')
   \<and> handleMessage test_env (onChannelMessage test_service (KString ''general'') 1) hello_message =
       (Inr (), [HandlerCall 1 hello_message])
   \<and> distinct_sets (channelManager test_service)"
proof -
  have c: "get_property hello_message ''channelId'' = Inr (Some (JString ''general''))"
    by (simp add: hello_message_def)
  have g: "Map_get (messageHandlers (onChannelMessage test_service (KString ''general'') 1)) (KString ''general'') = Some 1"
    by (simp add: onChannelMessage_def)
  have n: "Map_get (messageHandlers test_service) (KString ''general'') = None"
    by (simp add: test_service_def)
  have d: "distinct_sets (channelManager test_service)"
    by (simp add: test_service_def distinct_sets_def)
  have e: "handler_call test_env 1 hello_message = Some (Error ''Handler error'')"
    by (simp add: test_env_def)
  have b: "concat (map (\<lambda>u. snd (sendToUser test_env test_service u hello_message))
                     (getUsersInChannel (channelManager test_service) (KString ''general''))) =
        [SendToUser ''u1'' (write_json (JObject [(''type'', JString ''message''), (''message'', hello_message)])),
         SocketSend 3 (write_json (JObject [(''type'', JString ''message''), (''message'', hello_message)])),
         SendToUser ''u2'' (write_json (JObject [(''type'', JString ''message''), (''message'', hello_message)])),
         SocketSend 2 (write_json (JObject [(''type'', JString ''message''), (''message'', hello_message)])),
         SocketSend 4 (write_json (JObject [(''type'', JString ''message''), (''message'', hello_message)]))]"
    by (simp add: test_service_def test_env_def sendToUser_eq UserConnectionManager_sendToUser_def
        getUsersInChannel_def WebSocket_OPEN_def)
  show ?thesis
    using handleMessage_dispatch [OF c, of test_service test_env]
      handleMessage_dispatch [OF c, of "onChannelMessage test_service (KString ''general'') 1" test_env]
      c g n d e b
    by simp
qed

section \<open>The connection flag\<close>

text \<open>
  Claim C4, as amended. While the service is not connected, \<open>subscribeTo\<close> and
  \<open>unsubscribeFrom\<close> fail with the "not connected" error, leave the service as it
  is and make no call on the Redis client. \<open>sendToUser\<close> does not read the flag: it
  hands the envelope to the connection manager and returns what that returns, the same
  connected or not.
\<close>

theorem disconnected_operations:
  assumes "\<not> isConnected this"
  shows "subscribeTo E this c =
           (Inl (Error ''MessageSubscriberService not connected. Call connect() first.''), this, [])
    \<and> unsubscribeFrom E this c =
           (Inl (Error ''MessageSubscriberService not connected. Call connect() first.''), this, [])
    \<and> sendToUser E this u message =
           UserConnectionManager_sendToUser E (userConnectionManager this) u
             (JSON_stringify E (JObject [(''type'', JString ''message''), (''message'', message)]))
    \<and> sendToUser E this u message = sendToUser E (this\<lparr>isConnected := True\<rparr>) u message"
  using assms by (simp add: subscribeTo_def unsubscribeFrom_def not_connected_def sendToUser_eq)

theorem disconnected_operations_witness:
  "\<not> isConnected test_service
   \<and> subscribeTo test_env test_service ''general'' =
        (Inl (Error ''MessageSubscriberService not connected. Call connect() first.''), test_service, [])
   \<and> unsubscribeFrom test_env test_service ''general'' =
        (Inl (Error ''MessageSubscriberService not connected. Call connect() first.''), test_service, [])
   \<and> sendToUser test_env test_service ''u1'' hello_message =
        sendToUser test_env (test_service\<lparr>isConnected := True\<rparr>) ''u1'' hello_message"
proof -
  have h: "\<not> isConnected test_service"
    by (simp add: test_service_def)
  show ?thesis
    using h disconnected_operations [of test_service test_env "''general''" "''u1''" hello_message, OF h]
    by blast
qed

text \<open>
  The claim as first stated has \<open>sendToUser\<close> fail when the service is not
  connected. Here the service is not connected and the Message is sent on socket
  \<open>3\<close>.
\<close>

theorem sendToUser_disconnected_counterexample:
  "\<not> isConnected test_service
   \<and> sendToUser test_env test_service ''u1'' hello_message =
       (Inr True,
        [SendToUser ''u1'' (write_json (JObject [(''type'', JString ''message''), (''message'', hello_message)])),
         SocketSend 3 (write_json (JObject [(''type'', JString ''message''), (''message'', hello_message)]))])"
  by (simp add: sendToUser_eq UserConnectionManager_sendToUser_def test_service_def test_env_def
      WebSocket_OPEN_def)

text \<open>
  Claim C7. While the service is connected: \<open>subscribeTo\<close> on a channel that is
  in \<open>subscribedChannels\<close> returns normally with the service unchanged and no call
  on the Redis client, and so does \<open>unsubscribeFrom\<close> on a channel that is not in
  it. In particular a second \<open>subscribeTo\<close> after one that succeeded, and a second
  \<open>unsubscribeFrom\<close> after one that succeeded, change nothing.
\<close>

theorem subscription_noop:
  assumes "isConnected this"
  shows "(Set_has (subscribedChannels this) c \<longrightarrow> subscribeTo E this c = (Inr (), this, []))
    \<and> (\<not> Set_has (subscribedChannels this) c \<longrightarrow> unsubscribeFrom E this c = (Inr (), this, []))
    \<and> (\<forall>this1 evs. subscribeTo E this c = (Inr (), this1, evs) \<longrightarrow>
          subscribeTo E this1 c = (Inr (), this1, []))
    \<and> (\<forall>this1 evs. unsubscribeFrom E this c = (Inr (), this1, evs) \<longrightarrow>
          unsubscribeFrom E this1 c = (Inr (), this1, []))"
  using assms
  by (auto simp: subscribeTo_def unsubscribeFrom_def Set_has_def Set_add_def Set_delete_def
      split: option.splits if_splits)

theorem subscription_noop_witness:
  "isConnected (test_service\<lparr>isConnected := True\<rparr>)
   \<and> subscribeTo test_env (test_service\<lparr>isConnected := True\<rparr>) ''c1'' =
        (Inr (), test_service\<lparr>isConnected := True, subscribedChannels := [''c1'']\<rparr>, [RedisSubscribe ''c1''])
   \<and> subscribeTo test_env (test_service\<lparr>isConnected := True, subscribedChannels := [''c1'']\<rparr>) ''c1'' =
        (Inr (), test_service\<lparr>isConnected := True, subscribedChannels := [''c1'']\<rparr>, [])
   \<and> \<not> Set_has (subscribedChannels (test_service\<lparr>isConnected := True\<rparr>)) ''c1''
   \<and> unsubscribeFrom test_env (test_service\<lparr>isConnected := True\<rparr>) ''c1'' =
        (Inr (), test_service\<lparr>isConnected := True\<rparr>, [])"
  using subscription_noop [of "test_service\<lparr>isConnected := True\<rparr>" "''c1''" test_env]
    subscription_noop [of "test_service\<lparr>isConnected := True, subscribedChannels := [''c1'']\<rparr>" "''c1''" test_env]
  by (simp add: subscribeTo_def unsubscribeFrom_def test_service_def test_env_def Set_has_def Set_add_def)

section \<open>The subscription callback\<close>

lemma onRedisMessage_fst: "fst (onRedisMessage E this data channel) = Inr ()"
  by (simp add: onRedisMessage_def split: sum.splits prod.splits option.splits)

lemma onRedisMessage_unparsed:
  "JSON_parse E data = Inl e \<Longrightarrow> onRedisMessage E this data channel = (Inr (), [])"
  by (simp add: onRedisMessage_def)

lemma get_property_Inl: "get_property m name = Inl e \<Longrightarrow> m = JNull"
  by (cases m) simp_all

lemma onRedisMessage_parsed:
  "JSON_parse E data = Inr m \<Longrightarrow> m \<noteq> JNull \<Longrightarrow>
   onRedisMessage E this data channel = (Inr (), snd (handleMessage E this m))"
  by (auto simp: onRedisMessage_def dest: get_property_Inl split: sum.splits prod.splits)

text \<open>
  Claim C6, as amended. No payload makes the callback raise. A payload that
  \<^verbatim>\<open>JSON.parse\<close> rejects is dropped: nothing is dispatched, and the payloads
  delivered before and after it on the same subscription have the effects they have
  without it. A payload that parses is not checked against the Message schema: it is
  dropped when it is \<^verbatim>\<open>null\<close>, and otherwise goes to \<open>handleMessage\<close> as it is,
  which dispatches it on the value of its \<open>channelId\<close>.
\<close>

theorem onRedisMessage_contained:
  "fst (onRedisMessage E this data channel) = Inr ()
   \<and> (\<forall>e. JSON_parse E data = Inl e \<longrightarrow>
         onRedisMessage E this data channel = (Inr (), [])
       \<and> snd (deliver E this channel (before @ data # after)) = snd (deliver E this channel (before @ after)))
   \<and> (JSON_parse E data = Inr JNull \<longrightarrow> onRedisMessage E this data channel = (Inr (), []))
   \<and> (\<forall>m. JSON_parse E data = Inr m \<and> m \<noteq> JNull \<longrightarrow>
         onRedisMessage E this data channel = (Inr (), snd (handleMessage E this m)))
   \<and> list_all (\<lambda>r. r = Inr ()) (fst (deliver E this channel payloads))"
proof -
  have null: "JSON_parse E data = Inr JNull \<Longrightarrow> onRedisMessage E this data channel = (Inr (), [])"
    by (simp add: onRedisMessage_def)
  have skip: "snd (deliver E this channel (before @ data # after)) = snd (deliver E this channel (before @ after))"
    if "JSON_parse E data = Inl e" for e
    using that by (simp add: deliver_def onRedisMessage_unparsed)
  have all: "list_all (\<lambda>r. r = Inr ()) (fst (deliver E this channel payloads))"
    by (simp add: deliver_def list_all_iff onRedisMessage_fst)
  show ?thesis
    using null skip all onRedisMessage_fst onRedisMessage_unparsed onRedisMessage_parsed
    by blast
qed

lemma read_json_garbage: "JSON_parse test_env ''invalid json'' = Inl SyntaxError"
  by code_simp

lemma read_json_null: "JSON_parse test_env ''null'' = Inr JNull"
  by code_simp

lemma read_json_partial: "JSON_parse test_env (write_json partial_message) = Inr partial_message"
  by code_simp

lemma read_json_numeric: "JSON_parse test_env (write_json numeric_message) = Inr numeric_message"
  by code_simp

lemma read_json_hello: "JSON_parse test_env (write_json hello_message) = Inr hello_message"
  by (simp add: test_env_def read_json_def)

lemma handleMessage_numeric:
  "handleMessage test_env test_service numeric_message =
     (Inr (),
      [SendToUser ''u1'' (write_json (JObject [(''type'', JString ''message''), (''message'', numeric_message)])),
       SocketSend 3 (write_json (JObject [(''type'', JString ''message''), (''message'', numeric_message)]))])"
  by code_simp

theorem onRedisMessage_contained_witness:
  "JSON_parse test_env ''invalid json'' = Inl SyntaxError
   \<and> onRedisMessage test_env test_service ''invalid json'' ''general'' = (Inr (), [])
   \<and> snd (deliver test_env test_service ''general'' ([] @ ''invalid json'' # [write_json hello_message]))
       = snd (deliver test_env test_service ''general'' ([] @ [write_json hello_message]))
   \<and> JSON_parse test_env ''null'' = Inr JNull
   \<and> onRedisMessage test_env test_service ''null'' ''general'' = (Inr (), [])
   \<and> JSON_parse test_env (write_json numeric_message) = Inr numeric_message
   \<and> numeric_message \<noteq> JNull
   \<and> onRedisMessage test_env test_service (write_json numeric_message) ''general'' =
       (Inr (),
        [SendToUser ''u1'' (write_json (JObject [(''type'', JString ''message''), (''message'', numeric_message)])),
         SocketSend 3 (write_json (JObject [(''type'', JString ''message''), (''message'', numeric_message)]))])"
proof -
  have nn: "numeric_message \<noteq> JNull"
    by (simp add: numeric_message_def)
  have a: "onRedisMessage test_env test_service ''invalid json'' ''general'' = (Inr (), [])
       \<and> snd (deliver test_env test_service ''general'' ([] @ ''invalid json'' # [write_json hello_message]))
         = snd (deliver test_env test_service ''general'' ([] @ [write_json hello_message]))"
    using onRedisMessage_contained [of test_env test_service "''invalid json''" "''general''" "[]"
        "[write_json hello_message]" "[]"] read_json_garbage
    by blast
  have b: "onRedisMessage test_env test_service ''null'' ''general'' = (Inr (), [])"
    using onRedisMessage_contained [of test_env test_service "''null''" "''general''" "[]" "[]" "[]"]
      read_json_null
    by blast
  have c: "onRedisMessage test_env test_service (write_json numeric_message) ''general'' =
       (Inr (), snd (handleMessage test_env test_service numeric_message))"
    using onRedisMessage_contained [of test_env test_service "write_json numeric_message"
        "''general''" "[]" "[]" "[]"] read_json_numeric nn
    by blast
  show ?thesis
    using a b c nn read_json_garbage read_json_null read_json_numeric
    by (simp add: handleMessage_numeric)
qed

text \<open>
  The claim as first stated has every payload that does not match the Message schema
  dropped. The payload \<^verbatim>\<open>{"channelId":"general"}\<close> does not match it and is broadcast
  to the members of \<open>general\<close>.
\<close>

theorem onRedisMessage_schema_counterexample:
  "\<not> isValidChimeMessage partial_message
   \<and> JSON_parse test_env (write_json partial_message) = Inr partial_message
   \<and> onRedisMessage test_env test_service (write_json partial_message) ''general'' =
       (Inr (),
        [SendToUser ''u1'' (write_json (JObject [(''type'', JString ''message''), (''message'', partial_message)])),
         SocketSend 3 (write_json (JObject [(''type'', JString ''message''), (''message'', partial_message)])),
         SendToUser ''u2'' (write_json (JObject [(''type'', JString ''message''), (''message'', partial_message)])),
         SocketSend 2 (write_json (JObject [(''type'', JString ''message''), (''message'', partial_message)])),
         SocketSend 4 (write_json (JObject [(''type'', JString ''message''), (''message'', partial_message)]))])"
proof -
  have v: "\<not> isValidChimeMessage partial_message"
    by (simp add: partial_message_def)
  have np: "partial_message \<noteq> JNull"
    by (simp add: partial_message_def)
  have h: "handleMessage test_env test_service partial_message =
       (Inr (),
        [SendToUser ''u1'' (write_json (JObject [(''type'', JString ''message''), (''message'', partial_message)])),
         SocketSend 3 (write_json (JObject [(''type'', JString ''message''), (''message'', partial_message)])),
         SendToUser ''u2'' (write_json (JObject [(''type'', JString ''message''), (''message'', partial_message)])),
         SocketSend 2 (write_json (JObject [(''type'', JString ''message''), (''message'', partial_message)])),
         SocketSend 4 (write_json (JObject [(''type'', JString ''message''), (''message'', partial_message)]))])"
    by code_simp
  show ?thesis
    using v read_json_partial onRedisMessage_parsed [OF read_json_partial np, of test_service "''general''"] h
    by simp
qed

text \<open>
  Claim C10. A payload that parses to a value whose \<open>channelId\<close> is the string
  \<open>c\<close> is dispatched as \<open>handleMessage\<close> dispatches that value, on whatever
  topic \<open>channel\<close> the callback was registered: to the handler registered under
  \<open>c\<close> if there is one, and otherwise to the members of \<open>c\<close>.
\<close>

theorem onRedisMessage_routes_by_payload:
  assumes "JSON_parse E data = Inr message"
    and "get_property message ''channelId'' = Inr (Some (JString c))"
  shows "onRedisMessage E this data channel = handleMessage E this message
    \<and> onRedisMessage E this data channel = onRedisMessage E this data c
    \<and> (\<forall>h. Map_get (messageHandlers this) (KString c) = Some h \<longrightarrow>
          onRedisMessage E this data channel = (Inr (), [HandlerCall h message]))
    \<and> (Map_get (messageHandlers this) (KString c) = None \<longrightarrow>
          onRedisMessage E this data channel =
            (Inr (), concat (map (\<lambda>u. snd (sendToUser E this u message))
                              (getUsersInChannel (channelManager this) (KString c)))))"
proof -
  have nn: "message \<noteq> JNull"
    using assms(2) by auto
  have hm: "fst (handleMessage E this message) = Inr ()"
    using assms(2) by (cases "Map_get (messageHandlers this) (KString c)")
      (simp_all add: handleMessage_handler handleMessage_no_handler broadcastToChannel_eq)
  have eq: "onRedisMessage E this data t = handleMessage E this message" for t
    using onRedisMessage_parsed [OF assms(1) nn, of this t] hm
    by (metis prod.collapse)
  show ?thesis
    using eq assms(2)
    by (simp add: handleMessage_handler handleMessage_no_handler broadcastToChannel_eq)
qed

theorem onRedisMessage_routes_by_payload_witness:
  "JSON_parse test_env (write_json hello_message) = Inr hello_message
   \<and> get_property hello_message ''channelId'' = Inr (Some (JString ''general''))
   \<and> Map_get (messageHandlers test_service) (KString ''random'') = Some 1
   \<and> Map_get (messageHandlers test_service) (KString ''general'') = None
   \<and> onRedisMessage test_env test_service (write_json hello_message) ''random'' =
       (Inr (), concat (map (\<lambda>u. snd (sendToUser test_env test_service u hello_message)) [''u1'', ''u2'']))"
proof -
  have c: "get_property hello_message ''channelId'' = Inr (Some (JString ''general''))"
    by (simp add: hello_message_def)
  have r: "Map_get (messageHandlers test_service) (KString ''random'') = Some 1"
    by (simp add: test_service_def)
  have n: "Map_get (messageHandlers test_service) (KString ''general'') = None"
    by (simp add: test_service_def)
  have g: "getUsersInChannel (channelManager test_service) (KString ''general'') = [''u1'', ''u2'']"
    by (simp add: test_service_def getUsersInChannel_def)
  have "onRedisMessage test_env test_service (write_json hello_message) ''random'' =
       (Inr (), concat (map (\<lambda>u. snd (sendToUser test_env test_service u hello_message))
                         (getUsersInChannel (channelManager test_service) (KString ''general''))))"
    using onRedisMessage_routes_by_payload [OF read_json_hello c, of test_service "''random''"] n
    by blast
  then show ?thesis
    using c r n read_json_hello by (simp only: g)
qed

section \<open>Numbers below \<open>2 ^ 53\<close>\<close>

lemma digit_char_value: "0 \<le> d \<Longrightarrow> d < 10 \<Longrightarrow> (of_char (digit_char d) :: int) = 48 + d"
  by (simp add: digit_char_def)

lemma is_digit_digit_char: "0 \<le> d \<Longrightarrow> d < 10 \<Longrightarrow> is_digit (digit_char d)"
  by (simp add: is_digit_def digit_char_value)

lemma digits_of_nonempty: "digits_of n \<noteq> []"
  by (subst digits_of.simps) simp

lemma digits_of_all_digits: "0 \<le> n \<Longrightarrow> list_all is_digit (digits_of n)"
proof (induction n rule: digits_of.induct)
  case (1 n)
  show ?case
  proof (cases "n < 10")
    case True
    with 1 show ?thesis by (subst digits_of.simps) (simp add: is_digit_digit_char)
  next
    case False
    with 1 show ?thesis by (subst digits_of.simps) (simp add: is_digit_digit_char)
  qed
qed

lemma digits_of_value:
  "0 \<le> n \<Longrightarrow> foldl (\<lambda>acc c. 10 * acc + (of_char c - 48)) 0 (digits_of n) = n"
proof (induction n rule: digits_of.induct)
  case (1 n)
  show ?case
  proof (cases "n < 10")
    case True
    with 1 show ?thesis by (subst digits_of.simps) (simp add: digit_char_value)
  next
    case False
    with 1 show ?thesis by (subst digits_of.simps) (simp add: digit_char_value)
  qed
qed

lemma parse_digits_digits_of: "0 \<le> n \<Longrightarrow> parse_digits (digits_of n) = Some n"
  by (simp add: parse_digits_def digits_of_nonempty digits_of_all_digits digits_of_value)

lemma digits_of_not_minus: "0 \<le> n \<Longrightarrow> digits_of n = c # ds \<Longrightarrow> c \<noteq> CHR ''-''"
proof
  assume n: "0 \<le> n" and a: "digits_of n = c # ds" and b: "c = CHR ''-''"
  have "list_all is_digit (digits_of n)" using n by (rule digits_of_all_digits)
  with a b have "is_digit (CHR ''-'')" by simp
  then show False by (simp add: is_digit_def)
qed

lemma spacing_small: "m < 2 ^ 53 \<Longrightarrow> spacing m = 1"
  by (subst spacing.simps) simp

lemma spacing_bounds: "2 ^ 52 \<le> m \<Longrightarrow> 1 \<le> spacing m \<and> 2 ^ 52 * spacing m \<le> m"
proof (induction m rule: spacing.induct)
  case (1 m)
  show ?case
  proof (cases "m < 2 ^ 53")
    case True
    with 1 show ?thesis by (simp add: spacing_small)
  next
    case False
    then have "2 ^ 52 \<le> m div 2" by simp
    with 1 False have ih: "1 \<le> spacing (m div 2) \<and> 2 ^ 52 * spacing (m div 2) \<le> m div 2"
      by simp
    have s: "spacing m = 2 * spacing (m div 2)"
      using False by (subst spacing.simps) simp
    have "2 * (m div 2) \<le> m" by simp
    with ih s show ?thesis by simp
  qed
qed

lemma nearest_double_small: "m < 2 ^ 53 \<Longrightarrow> nearest_double m = m"
  by (simp add: nearest_double_def spacing_small)

lemma nearest_double_large:
  assumes "2 ^ 53 \<le> m"
  shows "2 ^ 53 \<le> nearest_double m"
proof -
  let ?s = "spacing m"
  have s: "2 \<le> ?s"
    using assms spacing_bounds [of "m div 2"] by (subst spacing.simps) simp
  have b: "2 ^ 52 * ?s \<le> m"
    using assms spacing_bounds [of m] by simp
  have "2 ^ 52 \<le> m div ?s"
  proof -
    have "(2 ^ 52 * ?s) div ?s \<le> m div ?s"
      using b by (rule zdiv_mono1) (use s in simp)
    then show ?thesis using s by simp
  qed
  then have q: "2 ^ 52 * ?s \<le> (m div ?s) * ?s"
    using s by (simp add: mult_right_mono)
  have "2 ^ 53 \<le> (2 ^ 52 :: int) * ?s"
    using s by simp
  with q have lo: "2 ^ 53 \<le> (m div ?s) * ?s" by linarith
  have "(m div ?s) * ?s \<le> (m div ?s + 1) * ?s"
    using s by (simp add: distrib_right)
  with lo show ?thesis
    by (simp add: nearest_double_def Let_def)
qed

lemma nearest_double_two53: "nearest_double (2 ^ 53) = 2 ^ 53"
  by code_simp

lemma nearest_double_safe: "m \<le> 2 ^ 53 \<Longrightarrow> nearest_double m = m"
  using nearest_double_small [of m] nearest_double_two53 by (cases "m = 2 ^ 53") auto

lemma to_number_safe: "- (2 ^ 53) \<le> n \<Longrightarrow> n \<le> 2 ^ 53 \<Longrightarrow> to_number n = n"
  by (simp add: to_number_def nearest_double_safe)

lemma round_trip_small:
  assumes "0 \<le> x" and "x < 2 ^ 53"
  shows "round_trip x p = None \<or> round_trip x p = Some x"
proof -
  let ?u = "(10 :: int) ^ p"
  let ?lo = "(x div ?u) * ?u"
  let ?hi = "?lo + ?u"
  have u: "0 < ?u" by simp
  have split: "x = ?lo + x mod ?u"
    using div_mult_mod_eq [of x ?u] by simp
  have "0 \<le> x mod ?u" and "x mod ?u < ?u"
    using u by simp_all
  with split have lo_le: "?lo \<le> x" and hi_gt: "x < ?hi"
    by linarith+
  have lo: "nearest_double ?lo = ?lo"
    using lo_le assms(2) by (intro nearest_double_small) linarith
  have hi: "nearest_double ?hi \<noteq> x"
  proof (cases "?hi < 2 ^ 53")
    case True
    then have "nearest_double ?hi = ?hi" by (rule nearest_double_small)
    with hi_gt show ?thesis by simp
  next
    case False
    then have "2 ^ 53 \<le> nearest_double ?hi" by (intro nearest_double_large) simp
    with assms(2) show ?thesis by linarith
  qed
  show ?thesis
    using lo hi by (auto simp: round_trip_def Let_def)
qed

lemma shortest_from_small: "0 \<le> x \<Longrightarrow> x < 2 ^ 53 \<Longrightarrow> shortest_from x p = x"
proof (induction p)
  case 0
  then show ?case by simp
next
  case (Suc p)
  with round_trip_small [of x "Suc p"] show ?case by auto
qed

lemma shortest_two53: "shortest (2 ^ 53) = 2 ^ 53"
  by code_simp

lemma shortest_safe: "0 \<le> x \<Longrightarrow> x \<le> 2 ^ 53 \<Longrightarrow> shortest x = x"
  using shortest_from_small [of x] shortest_two53
  by (cases "x = 2 ^ 53") (auto simp: shortest_def)

lemma parse_integer_Number_toString:
  assumes "- (2 ^ 53) \<le> n" and "n \<le> 2 ^ 53"
  shows "parse_integer (Number_toString n) = Some n"
proof (cases "n < 0")
  case True
  with assms show ?thesis
    by (simp add: parse_integer_def Number_toString_def shortest_safe parse_digits_digits_of)
next
  case False
  then have n: "0 \<le> n" by simp
  obtain c ds where cd: "digits_of n = c # ds"
    using digits_of_nonempty [of n] by (cases "digits_of n") auto
  have "c \<noteq> CHR ''-''" using n cd by (rule digits_of_not_minus)
  with False n cd assms parse_digits_digits_of [of n] show ?thesis
    by (simp add: parse_integer_def Number_toString_def shortest_safe)
qed

section \<open>saveMessage: failures\<close>

text \<open>
  Claim C1. If the allocator fails with \<open>e\<close>, \<open>saveMessage\<close> fails with \<open>e\<close>:
  it returns no Message, the store is as it was (no insert is made), and the allocator
  was asked once. If the allocator answers \<open>messageId\<close> and the insert fails with
  \<open>e\<close>, \<open>saveMessage\<close> fails with \<open>e\<close> and returns no Message; the allocator
  was asked once, so the id stays spent, and the insert was tried once.
\<close>

theorem saveMessage_failures:
  "(\<forall>e r'. client_incr B (counter_key channelId) (redis w) = (Inl e, r') \<longrightarrow>
       saveMessage B now channelId userId content w = (Inl e, w\<lparr>redis := r'\<rparr>)
     \<and> cassandra (snd (saveMessage B now channelId userId content w)) = cassandra w)
   \<and> (\<forall>messageId r' e d'.
         client_incr B (counter_key channelId) (redis w) = (Inr messageId, r')
       \<and> dbClient_execute B insert_query
            [CqlText channelId, CqlText (Number_toString messageId), CqlText userId,
             CqlText content, CqlTimestamp now, CqlNull, CqlEmptyMap] (cassandra w) = (Inl e, d')
       \<longrightarrow> saveMessage B now channelId userId content w = (Inl e, w\<lparr>redis := r', cassandra := d'\<rparr>))"
  by (simp add: saveMessage_def getNextMessageId_def saveMessage_insert_def Let_def)

theorem saveMessage_failures_witness:
  "client_incr (test_backend (Refused (Error ''Redis connection failed'')) True)
       (counter_key ''general'') (redis fresh_stores)
     = (Inl (Error ''Redis connection failed''), fresh_counters)
   \<and> saveMessage (test_backend (Refused (Error ''Redis connection failed'')) True)
       1000 ''general'' ''u1'' ''hi'' fresh_stores
     = (Inl (Error ''Redis connection failed''), fresh_stores)
   \<and> fst (client_incr (test_backend Reply False) (counter_key ''general'') (redis fresh_stores)) = Inr 1
   \<and> fst (saveMessage (test_backend Reply False) 1000 ''general'' ''u1'' ''hi'' fresh_stores)
     = Inl (Error ''Database connection failed'')
   \<and> redis (snd (saveMessage (test_backend Reply False) 1000 ''general'' ''u1'' ''hi'' fresh_stores))
       (counter_key ''general'') = 1
   \<and> cassandra (snd (saveMessage (test_backend Reply False) 1000 ''general'' ''u1'' ''hi'' fresh_stores)) = []"
proof -
  let ?B1 = "test_backend (Refused (Error ''Redis connection failed'')) True"
  let ?B2 = "test_backend Reply False"
  let ?r = "fresh_counters(counter_key ''general'' := 1)"
  have h1: "client_incr ?B1 (counter_key ''general'') (redis fresh_stores)
      = (Inl (Error ''Redis connection failed''), fresh_counters)"
    by (simp add: test_backend_def redis_incr_def incr_allowed_def fresh_stores_def
        fresh_counters_def)
  have h2: "client_incr ?B2 (counter_key ''general'') (redis fresh_stores) = (Inr 1, ?r)"
    by (simp add: test_backend_def redis_incr_def incr_allowed_def fresh_stores_def
        fresh_counters_def to_number_safe)
  have h3: "dbClient_execute ?B2 insert_query
        [CqlText ''general'', CqlText (Number_toString 1), CqlText ''u1'', CqlText ''hi'',
         CqlTimestamp 1000, CqlNull, CqlEmptyMap] (cassandra fresh_stores)
      = (Inl (Error ''Database connection failed''), [])"
    by (simp add: test_backend_def fresh_stores_def)
  have r1: "saveMessage ?B1 1000 ''general'' ''u1'' ''hi'' fresh_stores
      = (Inl (Error ''Redis connection failed''), fresh_stores\<lparr>redis := fresh_counters\<rparr>)"
    using saveMessage_failures [of ?B1 "''general''" fresh_stores 1000 "''u1''" "''hi''"] h1 by blast
  have r2: "saveMessage ?B2 1000 ''general'' ''u1'' ''hi'' fresh_stores
      = (Inl (Error ''Database connection failed''), fresh_stores\<lparr>redis := ?r, cassandra := []\<rparr>)"
    using saveMessage_failures [of ?B2 "''general''" fresh_stores 1000 "''u1''" "''hi''"] h2 h3 by blast
  show ?thesis
    using h1 h2 r1 r2 by (simp add: fresh_stores_def)
qed

section \<open>saveMessage: ids on a channel\<close>

lemma counter_key_inj: "counter_key a = counter_key b \<Longrightarrow> a = b"
  by (simp add: counter_key_def)

lemma pending_not_allocated:
  assumes "allocations_ok st" and "i < length (calls st)" and "calls st ! i = Pending c u ct"
  shows "\<forall>a \<in> set (allocations st). fst a \<noteq> i"
proof
  fix a assume "a \<in> set (allocations st)"
  with assms(1) have "holds_id (calls st ! fst a) (fst (snd a)) (snd (snd a))"
    by (simp add: allocations_ok_def)
  with assms(3) show "fst a \<noteq> i" by auto
qed

lemma allocations_ok_other_call:
  assumes "allocations_ok st" and "\<forall>a \<in> set (allocations st). fst a \<noteq> i"
  shows "allocations_ok (st\<lparr>counters := cs, calls := (calls st)[i := x]\<rparr>)"
  unfolding allocations_ok_def
proof (intro conjI ballI)
  fix a assume a: "a \<in> set (allocations (st\<lparr>counters := cs, calls := (calls st)[i := x]\<rparr>))"
  then have a': "a \<in> set (allocations st)" by simp
  with assms(1) have o: "fst a < length (calls st)"
    "holds_id (calls st ! fst a) (fst (snd a)) (snd (snd a))"
    by (simp_all add: allocations_ok_def)
  from a' assms(2) have ne: "fst a \<noteq> i" by blast
  show "fst a < length (calls (st\<lparr>counters := cs, calls := (calls st)[i := x]\<rparr>))"
    using o(1) by simp
  show "holds_id (calls (st\<lparr>counters := cs, calls := (calls st)[i := x]\<rparr>) ! fst a) (fst (snd a)) (snd (snd a))"
    using o(2) ne by simp
qed

lemma allocations_ok_append:
  assumes "allocations_ok st" and "i < length (calls st)" and "holds_id (calls st ! i) c n"
  shows "allocations_ok (st\<lparr>allocations := allocations st @ [(i, c, n)]\<rparr>)"
  unfolding allocations_ok_def
proof (intro conjI ballI)
  fix a assume "a \<in> set (allocations (st\<lparr>allocations := allocations st @ [(i, c, n)]\<rparr>))"
  then have "a \<in> set (allocations st) \<or> a = (i, c, n)" by auto
  then have "fst a < length (calls st) \<and> holds_id (calls st ! fst a) (fst (snd a)) (snd (snd a))"
    using assms by (auto simp: allocations_ok_def)
  then show "fst a < length (calls (st\<lparr>allocations := allocations st @ [(i, c, n)]\<rparr>))"
    and "holds_id (calls (st\<lparr>allocations := allocations st @ [(i, c, n)]\<rparr>) ! fst a) (fst (snd a)) (snd (snd a))"
    by simp_all
qed

lemma allocations_ok_same_call:
  assumes "allocations_ok st" and "i < length (calls st)"
    and "calls st ! i = Allocated c u ct n t" and "holds_id x c n"
  shows "allocations_ok (st\<lparr>rows := d, calls := (calls st)[i := x]\<rparr>)"
  unfolding allocations_ok_def
proof (intro conjI ballI)
  fix a assume "a \<in> set (allocations (st\<lparr>rows := d, calls := (calls st)[i := x]\<rparr>))"
  then have a': "a \<in> set (allocations st)" by simp
  with assms(1) have o: "fst a < length (calls st)"
    "holds_id (calls st ! fst a) (fst (snd a)) (snd (snd a))"
    by (simp_all add: allocations_ok_def)
  show "fst a < length (calls (st\<lparr>rows := d, calls := (calls st)[i := x]\<rparr>))"
    using o(1) by simp
  show "holds_id (calls (st\<lparr>rows := d, calls := (calls st)[i := x]\<rparr>) ! fst a) (fst (snd a)) (snd (snd a))"
  proof (cases "fst a = i")
    case True
    with o(2) assms(3) have "fst (snd a) = c \<and> snd (snd a) = n" by auto
    with True assms(2,4) show ?thesis by simp
  next
    case False
    with o(2) show ?thesis by simp
  qed
qed

lemma advance_Pending:
  assumes "i < length (calls st)" and "calls st ! i = Pending c u ct"
  shows "advance B (i, outcome, now) st =
     (case outcome of
        Reply \<Rightarrow>
          if incr_allowed (counters st (counter_key c)) then
            st\<lparr>counters := (counters st)(counter_key c := counters st (counter_key c) + 1),
               calls := (calls st)[i := Allocated c u ct (to_number (counters st (counter_key c) + 1)) now],
               allocations := allocations st @ [(i, c, to_number (counters st (counter_key c) + 1))]\<rparr>
          else
            st\<lparr>counters := counters st,
               calls := (calls st)[i := Rejected (Error ''ERR increment or decrement would overflow'')]\<rparr>
      | Refused e \<Rightarrow> st\<lparr>counters := counters st, calls := (calls st)[i := Rejected e]\<rparr>
      | ReplyLost e \<Rightarrow>
          if incr_allowed (counters st (counter_key c)) then
            st\<lparr>counters := (counters st)(counter_key c := counters st (counter_key c) + 1),
               calls := (calls st)[i := Rejected e]\<rparr>
          else st\<lparr>counters := counters st, calls := (calls st)[i := Rejected e]\<rparr>)"
  using assms
  by (simp add: advance_def getNextMessageId_def redis_incr_def Let_def split: incr_outcome.splits)

lemma advance_Allocated:
  assumes "i < length (calls st)" and "calls st ! i = Allocated c u ct n t"
  shows "advance B (i, outcome, now) st =
     (case saveMessage_insert B c u ct n t (rows st) of
        (Inl e, d') \<Rightarrow> st\<lparr>rows := d', calls := (calls st)[i := Rejected e]\<rparr>
      | (Inr message, d') \<Rightarrow> st\<lparr>rows := d', calls := (calls st)[i := Resolved message]\<rparr>)"
  using assms by (simp add: advance_def)

lemma advance_finished:
  "\<not> i < length (calls st) \<or> (\<exists>m. calls st ! i = Resolved m) \<or> (\<exists>e. calls st ! i = Rejected e)
   \<Longrightarrow> advance B (i, outcome, now) st = st"
  by (auto simp: advance_def)

lemma saveMessage_insert_holds_id:
  "saveMessage_insert B c u ct n t d = (Inr message, d') \<Longrightarrow> holds_id (Resolved message) c n"
  by (auto simp: saveMessage_insert_def split: prod.splits sum.splits)

lemma allocations_ok_advance:
  assumes ok: "allocations_ok st"
  shows "allocations_ok (advance B step st)"
proof -
  obtain i outcome now where step: "step = (i, outcome, now)"
    by (cases step) auto
  show ?thesis
  proof (cases "i < length (calls st)")
    case False
    then show ?thesis using ok step by (simp add: advance_finished)
  next
    case len: True
    show ?thesis
    proof (cases "calls st ! i")
      case (Pending c u ct)
      note free = pending_not_allocated [OF ok len Pending]
      let ?key = "counter_key c"
      let ?v = "counters st ?key + 1"
      have rejected: "allocations_ok (st\<lparr>counters := cs, calls := (calls st)[i := Rejected e]\<rparr>)" for cs e
        using ok free by (rule allocations_ok_other_call)
      show ?thesis
      proof (cases outcome)
        case Reply
        show ?thesis
        proof (cases "incr_allowed (counters st ?key)")
          case True
          let ?st1 = "st\<lparr>counters := (counters st)(?key := ?v),
                        calls := (calls st)[i := Allocated c u ct (to_number ?v) now]\<rparr>"
          have ok1: "allocations_ok ?st1"
            using ok free by (rule allocations_ok_other_call)
          have "allocations_ok (?st1\<lparr>allocations := allocations ?st1 @ [(i, c, to_number ?v)]\<rparr>)"
            using ok1 len by (intro allocations_ok_append) simp_all
          then show ?thesis
            using step Reply True by (simp add: advance_Pending [OF len Pending])
        next
          case False
          then show ?thesis
            using step Reply rejected [where cs = "counters st"]
            by (simp add: advance_Pending [OF len Pending])
        qed
      next
        case (Refused e)
        then show ?thesis
          using step rejected [where cs = "counters st" and e = e]
          by (simp add: advance_Pending [OF len Pending])
      next
        case (ReplyLost e)
        then show ?thesis
          using step rejected [where cs = "counters st" and e = e]
            rejected [where cs = "(counters st)(?key := ?v)" and e = e]
          by (simp add: advance_Pending [OF len Pending])
      qed
    next
      case (Allocated c u ct n t)
      obtain res d' where ins: "saveMessage_insert B c u ct n t (rows st) = (res, d')"
        by (cases "saveMessage_insert B c u ct n t (rows st)") auto
      show ?thesis
      proof (cases res)
        case (Inl e)
        have "allocations_ok (st\<lparr>rows := d', calls := (calls st)[i := Rejected e]\<rparr>)"
          using ok len Allocated by (rule allocations_ok_same_call) simp
        then show ?thesis
          using step ins Inl by (simp add: advance_Allocated [OF len Allocated])
      next
        case (Inr message)
        have "holds_id (Resolved message) c n"
          using ins Inr saveMessage_insert_holds_id [of B c u ct n t "rows st" message d'] by simp
        then have "allocations_ok (st\<lparr>rows := d', calls := (calls st)[i := Resolved message]\<rparr>)"
          using ok len Allocated by (intro allocations_ok_same_call)
        then show ?thesis
          using step ins Inr by (simp add: advance_Allocated [OF len Allocated])
      qed
    next
      case (Resolved m)
      then show ?thesis using ok step by (simp add: advance_finished)
    next
      case (Rejected e)
      then show ?thesis using ok step by (simp add: advance_finished)
    qed
  qed
qed

lemma allocations_ok_start: "allocations_ok (start counters0 rows0 requests)"
  by (simp add: allocations_ok_def start_def)

lemma allocations_complete_advance:
  assumes ok: "allocations_ok st" and co: "allocations_complete st"
  shows "allocations_complete (advance B step st)"
proof -
  obtain i outcome now where step: "step = (i, outcome, now)"
    by (cases step) auto
  show ?thesis
  proof (cases "i < length (calls st)")
    case False
    then show ?thesis using co step by (simp add: advance_finished)
  next
    case len: True
    show ?thesis
    proof (cases "calls st ! i")
      case (Pending c u ct)
      have free: "i \<notin> fst ` set (allocations st)"
        using pending_not_allocated [OF ok len Pending] by auto
      show ?thesis
        using co free len step
        by (cases outcome)
          (auto simp: advance_Pending [OF len Pending] allocations_complete_def nth_list_update)
    next
      case (Allocated c u ct n t)
      have "i \<in> fst ` set (allocations st)"
        using co len Allocated by (simp add: allocations_complete_def)
      then show ?thesis
        using co len step
        by (auto simp: advance_Allocated [OF len Allocated] allocations_complete_def nth_list_update
            split: prod.splits sum.splits)
    next
      case (Resolved m)
      then show ?thesis using co step by (simp add: advance_finished)
    next
      case (Rejected e)
      then show ?thesis using co step by (simp add: advance_finished)
    qed
  qed
qed

lemma allocations_complete_start: "allocations_complete (start counters0 rows0 requests)"
  by (auto simp: allocations_complete_def start_def split: prod.splits)

lemma allocations_invariants_run:
  "allocations_ok st \<Longrightarrow> allocations_complete st \<Longrightarrow>
   allocations_ok (run B schedule st) \<and> allocations_complete (run B schedule st)"
  unfolding run_def
  by (induction schedule arbitrary: st)
    (simp_all add: allocations_ok_advance allocations_complete_advance)

lemma resolved_recorded:
  assumes ok: "allocations_ok st" and co: "allocations_complete st"
    and "i < length (calls st)" and "calls st ! i = Resolved m"
    and "get_property m ''channelId'' = Inr (Some (JString c))"
  shows "\<exists>n. (i, c, n) \<in> set (allocations st)"
proof -
  from co assms(3,4) obtain a where a: "a \<in> set (allocations st)" "fst a = i"
    by (auto simp: allocations_complete_def)
  with ok have "holds_id (calls st ! i) (fst (snd a)) (snd (snd a))"
    by (auto simp: allocations_ok_def)
  with assms(4,5) have "fst (snd a) = c" by simp
  with a have "(i, c, snd (snd a)) \<in> set (allocations st)"
    by (metis prod.collapse)
  then show ?thesis ..
qed

subsection \<open>The counter of a channel\<close>

text \<open>
  What a step does to the counters and to the record, whatever it does to the calls.
\<close>

lemma advance_effect:
  "(counters (advance B step st) = counters st \<and> allocations (advance B step st) = allocations st)
   \<or> (\<exists>c. counters (advance B step st) =
             (counters st)(counter_key c := counters st (counter_key c) + 1)
          \<and> (allocations (advance B step st) = allocations st
              \<or> (\<exists>i. allocations (advance B step st) =
                     allocations st @ [(i, c, to_number (counters st (counter_key c) + 1))])))"
proof -
  obtain i outcome now where step: "step = (i, outcome, now)"
    by (cases step) auto
  show ?thesis
  proof (cases "i < length (calls st)")
    case False
    then show ?thesis using step by (simp add: advance_finished)
  next
    case len: True
    show ?thesis
    proof (cases "calls st ! i")
      case (Pending c u ct)
      show ?thesis
        using step
        by (cases outcome) (auto simp: advance_Pending [OF len Pending])
    next
      case (Allocated c u ct n t)
      then show ?thesis
        using step len by (auto simp: advance_Allocated split: prod.splits sum.splits)
    next
      case (Resolved m)
      then show ?thesis using step by (simp add: advance_finished)
    next
      case (Rejected e)
      then show ?thesis using step by (simp add: advance_finished)
    qed
  qed
qed

lemma counters_advance_mono: "counters st k \<le> counters (advance B step st) k"
  using advance_effect [of B step st] by auto

lemma ids_ok_advance:
  assumes ok: "ids_ok c st" and top: "counters (advance B step st) (counter_key c) \<le> 2 ^ 53"
  shows "ids_ok c (advance B step st)"
proof -
  let ?st' = "advance B step st"
  let ?k = "counter_key c"
  from ok have low: "- (2 ^ 53) \<le> counters st ?k"
    and ids: "\<forall>a \<in> set (allocations st). fst (snd a) = c \<longrightarrow>
        - (2 ^ 53) < snd (snd a) \<and> snd (snd a) \<le> counters st ?k"
    and srt: "sorted_wrt (<) (ids_on c (allocations st))"
    by (simp_all add: ids_ok_def)
  have mono: "counters st ?k \<le> counters ?st' ?k"
    by (rule counters_advance_mono)
  consider
      (same) "allocations ?st' = allocations st"
    | (new) c' i where "counters ?st' = (counters st)(counter_key c' := counters st (counter_key c') + 1)"
        and "allocations ?st' = allocations st @ [(i, c', to_number (counters st (counter_key c') + 1))]"
    using advance_effect [of B step st] by auto
  then show ?thesis
  proof cases
    case same
    then show ?thesis
      using low ids srt mono by (fastforce simp: ids_ok_def)
  next
    case new
    show ?thesis
    proof (cases "c' = c")
      case False
      then have "ids_on c (allocations ?st') = ids_on c (allocations st)"
        using new(2) by (simp add: ids_on_def)
      then show ?thesis
        using False new(2) low ids srt mono by (fastforce simp: ids_ok_def)
    next
      case True
      let ?v = "counters st ?k + 1"
      have cnt: "counters ?st' ?k = ?v"
        using new(1) True by simp
      with top low have "- (2 ^ 53) \<le> ?v" and "?v \<le> 2 ^ 53"
        by simp_all
      then have exact: "to_number ?v = ?v"
        by (rule to_number_safe)
      have alloc: "allocations ?st' = allocations st @ [(i, c, ?v)]"
        using new(2) True exact by simp
      have below: "\<forall>x \<in> set (ids_on c (allocations st)). x < ?v"
        using ids by (fastforce simp: ids_on_def)
      have "sorted_wrt (<) (ids_on c (allocations ?st'))"
        using srt below alloc by (simp add: ids_on_def sorted_wrt_append)
      moreover have "\<forall>a \<in> set (allocations ?st'). fst (snd a) = c \<longrightarrow>
          - (2 ^ 53) < snd (snd a) \<and> snd (snd a) \<le> counters ?st' ?k"
        using ids low alloc cnt by fastforce
      moreover have "- (2 ^ 53) \<le> counters ?st' ?k"
        using low mono by linarith
      ultimately show ?thesis
        by (simp add: ids_ok_def)
    qed
  qed
qed

lemma run_snoc: "run B (schedule @ [step]) st = advance B step (run B schedule st)"
  by (simp add: run_def)

lemma ids_ok_run:
  "ids_ok c st \<Longrightarrow> counters (run B schedule st) (counter_key c) \<le> 2 ^ 53 \<Longrightarrow>
   ids_ok c (run B schedule st)"
proof (induction schedule rule: rev_induct)
  case Nil
  then show ?case by (simp add: run_def)
next
  case (snoc step schedule)
  have "counters (run B schedule st) (counter_key c)
      \<le> counters (advance B step (run B schedule st)) (counter_key c)"
    by (rule counters_advance_mono)
  with snoc.prems(2) have "counters (run B schedule st) (counter_key c) \<le> 2 ^ 53"
    by (simp add: run_snoc)
  with snoc.IH snoc.prems(1) have "ids_ok c (run B schedule st)"
    by simp
  then show ?case
    using snoc.prems(2) by (simp add: run_snoc ids_ok_advance)
qed

lemma ids_ok_start:
  "- (2 ^ 53) \<le> counters0 (counter_key c) \<Longrightarrow> ids_ok c (start counters0 rows0 requests)"
  by (simp add: ids_ok_def start_def ids_on_def)

lemma returned_id_holds:
  assumes "i < length cs" and "holds_id (cs ! i) c n" and "- (2 ^ 53) \<le> n" and "n \<le> 2 ^ 53"
  shows "returned_id cs i = (if \<exists>m. cs ! i = Resolved m then [Some n] else [])"
  using assms
  by (cases "cs ! i") (simp_all add: returned_id_def parse_integer_Number_toString)

lemma returned_ids_log:
  assumes "\<forall>a \<in> set log. fst a < length cs \<and> holds_id (cs ! fst a) (fst (snd a)) (snd (snd a))"
    and "\<forall>a \<in> set log. fst (snd a) = c \<longrightarrow> - (2 ^ 53) \<le> snd (snd a) \<and> snd (snd a) \<le> 2 ^ 53"
  shows "concat (map (\<lambda>(i, c', n). if c' = c then returned_id cs i else []) log) =
     map Some (map (\<lambda>a. snd (snd a))
       (filter (\<lambda>a. \<exists>m. cs ! fst a = Resolved m) (filter (\<lambda>a. fst (snd a) = c) log)))"
  using assms
proof (induction log)
  case Nil
  then show ?case by simp
next
  case (Cons a log)
  obtain i c' n where a: "a = (i, c', n)" by (cases a) auto
  have rest: "concat (map (\<lambda>(i, c', n). if c' = c then returned_id cs i else []) log) =
     map Some (map (\<lambda>a. snd (snd a))
       (filter (\<lambda>a. \<exists>m. cs ! fst a = Resolved m) (filter (\<lambda>a. fst (snd a) = c) log)))"
    using Cons by simp
  show ?case
  proof (cases "c' = c")
    case False
    with a rest show ?thesis by simp
  next
    case True
    from Cons.prems a True have "i < length cs" and "holds_id (cs ! i) c n"
      and "- (2 ^ 53) \<le> n" and "n \<le> 2 ^ 53"
      by simp_all
    then have "returned_id cs i = (if \<exists>m. cs ! i = Resolved m then [Some n] else [])"
      by (rule returned_id_holds)
    with a True rest show ?thesis by simp
  qed
qed

text \<open>
  The schedule runs the code of \<open>saveMessage\<close>: two steps in a row of a pending
  call are one call of \<open>saveMessage\<close>.
\<close>

lemma advance_twice_saveMessage:
  assumes "i < length (calls st)" and "calls st ! i = Pending c u ct"
    and "st2 = advance B (i, outcome2, now2) (advance B (i, outcome, now) st)"
    and "saveMessage (B\<lparr>client_incr := redis_incr outcome\<rparr>) now c u ct
           \<lparr>redis = counters st, cassandra = rows st\<rparr> = (res, w)"
  shows "counters st2 = redis w \<and> rows st2 = cassandra w
    \<and> calls st2 = (calls st)[i := (case res of Inl e \<Rightarrow> Rejected e | Inr m \<Rightarrow> Resolved m)]"
  using assms
  by (cases outcome)
    (auto simp: advance_Pending advance_Allocated advance_finished saveMessage_def
      getNextMessageId_def redis_incr_def saveMessage_insert_def Let_def
      split: prod.splits sum.splits)

text \<open>
  Claim C2, as amended. Any number of \<open>saveMessage\<close> calls, on any channels, run
  interleaved in any schedule against a per-key atomic counter, with any failures of
  the allocator and of the store. For every channel whose counter starts at
  \<open>- (2 ^ 53)\<close> or above and ends at \<open>2 ^ 53\<close> or below, the messageIds of the
  Messages returned on it, taken in the order the allocator answered those calls, all
  read back as integers, and these integers are strictly increasing. No call is left
  out: every call that returned a Message on the channel stands in the record of
  allocations, once.
\<close>

theorem saveMessage_ids_increase:
  assumes "st = run B schedule (start counters0 rows0 requests)"
  shows "(- (2 ^ 53) \<le> counters0 (counter_key channelId)
          \<and> counters st (counter_key channelId) \<le> 2 ^ 53
        \<longrightarrow> (\<exists>ns. returned_ids st channelId = map Some ns \<and> sorted_wrt (<) ns))
    \<and> distinct (map fst (allocations st))
    \<and> (\<forall>i m. i < length (calls st) \<and> calls st ! i = Resolved m
              \<and> get_property m ''channelId'' = Inr (Some (JString channelId))
          \<longrightarrow> (\<exists>n. (i, channelId, n) \<in> set (allocations st)))"
proof -
  let ?ns = "map (\<lambda>a. snd (snd a))
       (filter (\<lambda>a. \<exists>m. calls st ! fst a = Resolved m)
          (filter (\<lambda>a. fst (snd a) = channelId) (allocations st)))"
  have inv: "allocations_ok st \<and> allocations_complete st"
    unfolding assms
    by (intro allocations_invariants_run allocations_ok_start allocations_complete_start)
  then have ok: "allocations_ok st" and co: "allocations_complete st"
    by simp_all
  have first: "\<exists>ns. returned_ids st channelId = map Some ns \<and> sorted_wrt (<) ns"
    if low: "- (2 ^ 53) \<le> counters0 (counter_key channelId)"
      and top: "counters st (counter_key channelId) \<le> 2 ^ 53"
  proof -
    have io: "ids_ok channelId st"
      using top unfolding assms by (intro ids_ok_run ids_ok_start low)
    from ok have a: "\<forall>a \<in> set (allocations st).
        fst a < length (calls st) \<and> holds_id (calls st ! fst a) (fst (snd a)) (snd (snd a))"
      by (simp add: allocations_ok_def)
    from io top have b: "\<forall>a \<in> set (allocations st). fst (snd a) = channelId \<longrightarrow>
        - (2 ^ 53) \<le> snd (snd a) \<and> snd (snd a) \<le> 2 ^ 53"
      by (fastforce simp: ids_ok_def)
    have eq: "returned_ids st channelId = map Some ?ns"
      unfolding returned_ids_def using a b by (rule returned_ids_log)
    have "sorted_wrt (<) (ids_on channelId (allocations st))"
      using io by (simp add: ids_ok_def)
    then have "sorted_wrt (<) ?ns"
      unfolding ids_on_def sorted_wrt_map by (rule sorted_wrt_filter)
    with eq show ?thesis by blast
  qed
  have second: "distinct (map fst (allocations st))"
    using co by (simp add: allocations_complete_def)
  have third: "\<exists>n. (i, channelId, n) \<in> set (allocations st)"
    if "i < length (calls st)" and "calls st ! i = Resolved m"
      and "get_property m ''channelId'' = Inr (Some (JString channelId))" for i m
    using ok co that by (rule resolved_recorded)
  show ?thesis
    using first second third by blast
qed

theorem saveMessage_ids_increase_witness:
  "- (2 ^ 53) \<le> fresh_counters (counter_key ''general'')
   \<and> counters
     (run (test_backend Reply True)
        [(0, Reply, 5), (1, Reply, 6), (1, Reply, 7), (2, Reply, 7), (0, Reply, 8), (2, Reply, 9)]
        (start fresh_counters []
           [(''general'', ''u1'', ''hi''), (''general'', ''u2'', ''there''), (''random'', ''u2'', ''x'')]))
     (counter_key ''general'') = 2
   \<and> returned_ids
     (run (test_backend Reply True)
        [(0, Reply, 5), (1, Reply, 6), (1, Reply, 7), (2, Reply, 7), (0, Reply, 8), (2, Reply, 9)]
        (start fresh_counters []
           [(''general'', ''u1'', ''hi''), (''general'', ''u2'', ''there''), (''random'', ''u2'', ''x'')]))
     ''general'' = [Some 1, Some 2]
   \<and> sorted_wrt (<) [1 :: int, 2]
   \<and> allocations
     (run (test_backend Reply True)
        [(0, Reply, 5), (1, Reply, 6), (1, Reply, 7), (2, Reply, 7), (0, Reply, 8), (2, Reply, 9)]
        (start fresh_counters []
           [(''general'', ''u1'', ''hi''), (''general'', ''u2'', ''there''), (''random'', ''u2'', ''x'')]))
     = [(0, ''general'', 1), (1, ''general'', 2), (2, ''random'', 1)]"
proof -
  let ?st = "run (test_backend Reply True)
        [(0, Reply, 5), (1, Reply, 6), (1, Reply, 7), (2, Reply, 7), (0, Reply, 8), (2, Reply, 9)]
        (start fresh_counters []
           [(''general'', ''u1'', ''hi''), (''general'', ''u2'', ''there''), (''random'', ''u2'', ''x'')])"
  have l: "- (2 ^ 53) \<le> fresh_counters (counter_key ''general'')"
    by (simp add: fresh_counters_def)
  have t: "counters ?st (counter_key ''general'') = 2"
    by code_simp
  have e: "returned_ids ?st ''general'' = [Some 1, Some 2]"
    by code_simp
  have a: "allocations ?st = [(0, ''general'', 1), (1, ''general'', 2), (2, ''random'', 1)]"
    by code_simp
  show ?thesis
    using l t e a saveMessage_ids_increase [OF refl, of fresh_counters "''general''"
        "test_backend Reply True"
        "[(0, Reply, 5), (1, Reply, 6), (1, Reply, 7), (2, Reply, 7), (0, Reply, 8), (2, Reply, 9)]"
        "[]"
        "[(''general'', ''u1'', ''hi''), (''general'', ''u2'', ''there''), (''random'', ''u2'', ''x'')]"]
    by simp
qed

text \<open>
  The claim as first stated has the ids strictly increasing whatever the counter. The
  counter of \<open>general\<close> stands at \<open>2 ^ 53 - 1\<close>. Two calls are answered \<open>2 ^ 53\<close>
  and \<open>2 ^ 53 + 1\<close>; the second reply reaches the code as the number \<open>2 ^ 53\<close>,
  and both calls return the messageId \<open>9007199254740992\<close>.
\<close>

theorem saveMessage_ids_collide_counterexample:
  "returned_ids
     (run (test_backend Reply True) [(0, Reply, 5), (1, Reply, 6), (0, Reply, 7), (1, Reply, 8)]
        (start edge_counters [] [(''general'', ''u1'', ''hi''), (''general'', ''u2'', ''there'')]))
     ''general'' = [Some 9007199254740992, Some 9007199254740992]
   \<and> \<not> sorted_wrt (<) [9007199254740992 :: int, 9007199254740992]"
proof -
  have "returned_ids
     (run (test_backend Reply True) [(0, Reply, 5), (1, Reply, 6), (0, Reply, 7), (1, Reply, 8)]
        (start edge_counters [] [(''general'', ''u1'', ''hi''), (''general'', ''u2'', ''there'')]))
     ''general'' = [Some 9007199254740992, Some 9007199254740992]"
    by code_simp
  then show ?thesis by simp
qed

end
